theory Spec2Isabelle
  imports Complex_Main "HOL-Library.Word" "HOL-Library.Log_Nat"
begin

unbundle bit_operations_syntax

section \<open>Linear BVH construction: the radix-tree builder of build_radix_tree.hpp\<close>

text \<open>
  The development follows \<^verbatim>\<open>axom/spin/internal/linear_bvh/build_radix_tree.hpp\<close>.
  Values of the C++ type \<^verbatim>\<open>int32\<close> are modelled as \<^typ>\<open>int\<close>. For arrays of at most
  \<open>2 ^ 30\<close> primitives no intermediate value of the builder leaves the 32-bit range
  (a tree of \<open>n\<close> leaves has \<open>2n - 1\<close> node indices). For longer arrays the first
  operation to leave it is the doubling \<^verbatim>\<open>lmax *= 2\<close> of \<^verbatim>\<open>build_tree\<close>; the arithmetic of
  that loop is therefore written with the wrap-around of a 32-bit register, \<open>wrap32\<close>.
  Values of type \<^verbatim>\<open>uint32\<close> (the Morton codes) are \<^typ>\<open>32 word\<close>. An array or array
  view is a list; an index is converted with \<^const>\<open>nat\<close> at the access.
\<close>

type_synonym int32 = int
type_synonym uint32 = "32 word"

definition wrap32 :: "int \<Rightarrow> int32" where
  "wrap32 x = (x + 2147483648) mod 4294967296 - 2147483648"

subsection \<open>Faults and checked array accesses\<close>

text \<open>
  The C++ code does not raise: an access outside an array is undefined behaviour, a
  violated \<^verbatim>\<open>SLIC_ASSERT\<close> aborts, and a loop may fail to terminate. Each of these is
  a value of \<open>fault\<close>; a stage returns \<open>fault + 'a\<close>.
\<close>

datatype fault = OutOfBounds | NonTermination | AssertionFailed | DivisionByZero

definition load :: "'a list \<Rightarrow> int32 \<Rightarrow> fault + 'a" where
  "load xs k = (if 0 \<le> k \<and> k < int (length xs) then Inr (xs ! nat k) else Inl OutOfBounds)"

definition store :: "'a list \<Rightarrow> int32 \<Rightarrow> 'a \<Rightarrow> fault + 'a list" where
  "store xs k v = (if 0 \<le> k \<and> k < int (length xs) then Inr (xs[nat k := v]) else Inl OutOfBounds)"

definition bindF :: "fault + 'a \<Rightarrow> ('a \<Rightarrow> fault + 'b) \<Rightarrow> fault + 'b" where
  "bindF m f = (case m of Inl e \<Rightarrow> Inl e | Inr x \<Rightarrow> f x)"

text \<open>
  \<^verbatim>\<open>for_all<ExecSpace>(n, body)\<close> runs \<open>body i\<close> for \<open>i = 0, \<dots>, n - 1\<close>. The model is the
  sequential policy (\<^verbatim>\<open>SEQ_EXEC\<close>): the iterations run in increasing order on a state
  that is passed along, and the first fault ends the loop.
\<close>

primrec for_each :: "int32 list \<Rightarrow> (int32 \<Rightarrow> 's \<Rightarrow> fault + 's) \<Rightarrow> 's \<Rightarrow> fault + 's" where
  "for_each [] body s = Inr s"
| "for_each (i # js) body s = bindF (body i s) (for_each js body)"

definition for_all :: "int32 \<Rightarrow> (int32 \<Rightarrow> 's \<Rightarrow> fault + 's) \<Rightarrow> 's \<Rightarrow> fault + 's" where
  "for_all n body s = for_each (map int [0..<nat n]) body s"

subsection \<open>Leading zeros\<close>

text \<open>
  Modelled from the spec: \<^verbatim>\<open>axom::utilities::leadingZeros\<close> lives in
  \<^verbatim>\<open>BitUtilities.hpp\<close>, which is not part of the sources at hand. The spec calls it
  "the number of leading zero bits" of a 32-bit value; that is 32 minus the position of
  the highest set bit, and 32 for the value 0.
\<close>

definition leadingZeros :: "uint32 \<Rightarrow> int32" where
  "leadingZeros w = 32 - int (floorlog 2 (unat w))"

subsection \<open>The delta metric\<close>

definition delta :: "int32 \<Rightarrow> int32 \<Rightarrow> int32 \<Rightarrow> uint32 list \<Rightarrow> int32" where
  "delta a b inner_size mcodes =
    (let out_of_range = (b < 0 \<or> b > inner_size);
         bb = (if out_of_range then 0 else b);
         acode = mcodes ! nat a;
         bcode = mcodes ! nat bb;
         exor = acode XOR bcode;
         tie = (exor = 0);
         exor = (if tie then (word_of_int a :: uint32) XOR word_of_int bb else exor);
         count = leadingZeros exor;
         count = (if tie then count + 32 else count);
         count = (if out_of_range then - 1 else count)
     in count)"


text \<open>
  \<^verbatim>\<open>delta\<close> reads \<open>mcodes[a]\<close> and \<open>mcodes[bb]\<close> without a check. Every call of
  \<^verbatim>\<open>build_tree\<close> has \<open>0 \<le> a < inner_size\<close>, and \<open>bb\<close> lies in \<open>[0, inner_size]\<close> by
  construction, so with a code array of \<open>inner_size + 1\<close> entries both reads are inside.
\<close>

subsection \<open>The body of build_tree\<close>

text \<open>
  \<^verbatim>\<open>float32(l)\<close> converts the range length to single precision. Single precision has a
  24-bit significand and the conversion rounds to nearest, ties to even, so the result
  is \<open>l\<close> itself below \<open>2 ^ 24\<close> and a multiple of \<open>2 ^ e\<close> above, where \<open>e\<close> is the number of
  bits of \<open>l\<close> beyond 24. The result is always an integer, and is given as one.
\<close>

definition float32 :: "int32 \<Rightarrow> int" where
  "float32 l =
    (let m = nat \<bar>l\<bar>;
         e = floorlog 2 m - 24;
         q = m div 2 ^ e;
         r = m mod 2 ^ e;
         q' = (if 2 ^ e < 2 * r \<or> (2 * r = 2 ^ e \<and> odd q) then q + 1 else q)
     in sgn l * int (q' * 2 ^ e))"

text \<open>
  The doubling loop \<^verbatim>\<open>while(delta(i, i + lmax * d) > min_delta) lmax *= 2\<close>. Its three
  \<^verbatim>\<open>int32\<close> operations wrap: \<open>lmax\<close> reaches \<open>2 ^ 30\<close> when the array has more than \<open>2 ^ 30\<close>
  entries, and the next doubling gives \<open>- 2 ^ 31\<close>.
\<close>

partial_function (option) find_lmax ::
  "int32 \<Rightarrow> int32 \<Rightarrow> int32 \<Rightarrow> int32 \<Rightarrow> uint32 list \<Rightarrow> int32 \<Rightarrow> int32 option" where
  "find_lmax i d min_delta inner_size mcodes lmax =
    (if delta i (wrap32 (i + wrap32 (lmax * d))) inner_size mcodes > min_delta
     then find_lmax i d min_delta inner_size mcodes (wrap32 (lmax * 2))
     else Some lmax)"

text \<open>
  The binary search \<^verbatim>\<open>for(t = lmax / 2; t >= 1; t /= 2)\<close> for the range length. The
  step \<open>t\<close> is positive whenever it is divided, so C++ division and \<open>div\<close> agree.
\<close>

function find_l ::
  "int32 \<Rightarrow> int32 \<Rightarrow> int32 \<Rightarrow> int32 \<Rightarrow> uint32 list \<Rightarrow> int32 \<Rightarrow> int32 \<Rightarrow> int32" where
  "find_l i d min_delta inner_size mcodes t l =
    (if t \<ge> 1
     then find_l i d min_delta inner_size mcodes (t div 2)
            (if delta i (i + (l + t) * d) inner_size mcodes > min_delta then l + t else l)
     else l)"
  by pat_completeness auto
termination
  by (relation "measure (\<lambda>(i, d, m, n, c, t, l). nat t)") auto

declare find_l.simps [simp del]

text \<open>
  The split search
  \<^verbatim>\<open>for(t = ceil(float32(l) / div_factor);; div_factor *= 2, t = ceil(float32(l) / div_factor))\<close>,
  which leaves only through \<^verbatim>\<open>if(t == 1) break\<close>. The factor \<open>div_factor\<close> is a power of
  two, so the floating-point division is exact and is the division of real numbers.
\<close>

partial_function (option) find_split ::
  "int32 \<Rightarrow> int32 \<Rightarrow> int32 \<Rightarrow> int32 \<Rightarrow> uint32 list \<Rightarrow> int32 \<Rightarrow> real \<Rightarrow> int32 \<Rightarrow> int32 option" where
  "find_split i d delta_node inner_size mcodes l div_factor s =
    (let t = \<lceil>real_of_int (float32 l) / div_factor\<rceil>;
         s = (if delta i (i + (s + t) * d) inner_size mcodes > delta_node then s + t else s)
     in if t = 1 then Some s
        else find_split i d delta_node inner_size mcodes l (div_factor * 2) s)"

text \<open>
  The computation of one iteration of \<^verbatim>\<open>build_tree\<close> up to the split position: the
  far end \<open>j\<close> of the range of node \<open>i\<close> and \<open>split\<close>. \<open>None\<close> means that one of the two
  open-ended loops does not terminate.
\<close>

definition node_split :: "int32 \<Rightarrow> int32 \<Rightarrow> uint32 list \<Rightarrow> (int32 \<times> int32) option" where
  "node_split i inner_size mcodes =
    (let d = (if 0 > delta i (i + 1) inner_size mcodes - delta i (i - 1) inner_size mcodes
              then - 1 else 1);
         min_delta = delta i (i - d) inner_size mcodes
     in case find_lmax i d min_delta inner_size mcodes 2 of
          None \<Rightarrow> None
        | Some lmax \<Rightarrow>
           (let l = find_l i d min_delta inner_size mcodes (lmax div 2) 0;
                j = i + l * d;
                delta_node = delta i j inner_size mcodes
            in case find_split i d delta_node inner_size mcodes l 2 0 of
                 None \<Rightarrow> None
               | Some s \<Rightarrow> Some (j, i + s * d + min d 0)))"

subsection \<open>Bounding boxes\<close>

text \<open>
  Modelled from the spec: \<^verbatim>\<open>primal::BoundingBox\<close> (\<^verbatim>\<open>BoundingBox.hpp\<close>) is not part of
  the sources at hand. The spec describes a box as a pair (min corner, max corner) of
  coordinates, the union of two boxes, the centroid, and an invalid box that a union
  absorbs. A value of \<^verbatim>\<open>FloatType\<close> is a real number. Minimum, maximum and comparison
  are exact on floating-point numbers; the result of an addition, subtraction,
  multiplication or division is rounded to \<^verbatim>\<open>FloatType\<close>, and the rounding is the
  parameter \<open>round_float\<close> below (\<^verbatim>\<open>FloatType\<close> is a template parameter of the builder).
  Infinities and NaN are not modelled.
\<close>

record BoundingBox =
  getMin :: "real list"
  getMax :: "real list"

definition addBox :: "BoundingBox \<Rightarrow> BoundingBox \<Rightarrow> BoundingBox" where
  "addBox a b = \<lparr>getMin = map2 min (getMin a) (getMin b), getMax = map2 max (getMax a) (getMax b)\<rparr>"

text \<open>
  What the builder takes from headers that are not at hand is collected in a record of
  parameters: the dimension \<^verbatim>\<open>NDIMS\<close>, the rounding of a real number to \<^verbatim>\<open>FloatType\<close>,
  the largest finite \<^verbatim>\<open>FloatType\<close> (the invalid box
  \<^verbatim>\<open>BoxType {}\<close> has it as minimum and its negation as maximum), \<^verbatim>\<open>BoundingBox::scale\<close>,
  \<^verbatim>\<open>utilities::isNearlyEqual\<close>, \<^verbatim>\<open>convertPointToMorton\<close>, and the contents of freshly
  allocated, uninitialised arrays.
\<close>

record env =
  NDIMS :: nat
  round_float :: "real \<Rightarrow> real"
  float_max :: real
  box_scale :: "real \<Rightarrow> BoundingBox \<Rightarrow> BoundingBox"
  isNearlyEqual :: "real \<Rightarrow> real \<Rightarrow> bool"
  convertPointToMorton :: "int32 list \<Rightarrow> uint32"
  junk_int :: "nat \<Rightarrow> int32"
  junk_code :: "nat \<Rightarrow> uint32"
  junk_box :: "nat \<Rightarrow> BoundingBox"

definition getCentroid :: "env \<Rightarrow> BoundingBox \<Rightarrow> real list" where
  "getCentroid E a = map2 (\<lambda>lo hi. round_float E ((lo + hi) / 2)) (getMin a) (getMax a)"

definition invalid_box :: "env \<Rightarrow> BoundingBox" where
  "invalid_box E = \<lparr>getMin = replicate (NDIMS E) (float_max E),
                    getMax = replicate (NDIMS E) (- float_max E)\<rparr>"

subsection \<open>The radix tree\<close>

text \<open>
  Modelled from the spec: \<^verbatim>\<open>RadixTree.hpp\<close> is not part of the sources at hand. The
  fields are the ones \<^verbatim>\<open>build_radix_tree.hpp\<close> uses; \<^verbatim>\<open>allocate\<close> sizes the arrays as the
  spec's data model says (\<open>n\<close> leaves, \<open>n - 1\<close> internal nodes, parents for all \<open>2n - 1\<close>
  nodes) and leaves their contents uninitialised.
\<close>

record RadixTree =
  m_size :: int32
  m_inner_size :: int32
  m_left_children :: "int32 list"
  m_right_children :: "int32 list"
  m_parents :: "int32 list"
  m_mcodes :: "uint32 list"
  m_leafs :: "int32 list"
  m_leaf_aabbs :: "BoundingBox list"
  m_inner_aabbs :: "BoundingBox list"

definition allocate :: "env \<Rightarrow> int32 \<Rightarrow> RadixTree" where
  "allocate E sz =
    \<lparr>m_size = sz, m_inner_size = sz - 1,
     m_left_children = map (junk_int E) [0..<nat (sz - 1)],
     m_right_children = map (junk_int E) [0..<nat (sz - 1)],
     m_parents = map (junk_int E) [0..<nat (sz + (sz - 1))],
     m_mcodes = map (junk_code E) [0..<nat sz],
     m_leafs = map (junk_int E) [0..<nat sz],
     m_leaf_aabbs = map (junk_box E) [0..<nat sz],
     m_inner_aabbs = map (junk_box E) [0..<nat (sz - 1)]\<rparr>"

subsection \<open>transform_boxes, reduce\<close>

definition transform_boxes ::
  "env \<Rightarrow> BoundingBox list \<Rightarrow> BoundingBox list \<Rightarrow> int32 \<Rightarrow> real \<Rightarrow> fault + BoundingBox list" where
  "transform_boxes E boxes aabbs sz scale_factor =
    for_all sz
      (\<lambda>i aabbs. bindF (load boxes i) (\<lambda>aabb. store aabbs i (box_scale E scale_factor aabb)))
      aabbs"

definition reduce :: "env \<Rightarrow> BoundingBox list \<Rightarrow> int32 \<Rightarrow> fault + BoundingBox" where
  "reduce E aabbs sz =
    for_all sz
      (\<lambda>i global_bounds. bindF (load aabbs i) (\<lambda>aabb. Inr (addBox global_bounds aabb)))
      (invalid_box E)"

subsection \<open>Morton codes\<close>

text \<open>
  \<^verbatim>\<open>morton32_encode\<close>: each coordinate is scaled by \<open>2 ^ (32 / Dims)\<close>, clamped to
  \<open>[0, 2 ^ (32 / Dims) - 1]\<close> and truncated; the interleaving is \<^verbatim>\<open>convertPointToMorton\<close>.
\<close>

definition int_coord :: "env \<Rightarrow> real \<Rightarrow> int32" where
  "int_coord E x =
    \<lfloor>min (max (round_float E (x * 2 ^ (32 div NDIMS E))) 0) (2 ^ (32 div NDIMS E) - 1)\<rfloor>"

definition morton32_encode :: "env \<Rightarrow> real list \<Rightarrow> uint32" where
  "morton32_encode E point = convertPointToMorton E (map (int_coord E) point)"

text \<open>
  The division \<^verbatim>\<open>1.f / extent[i]\<close> of \<^verbatim>\<open>get_mcodes\<close> is written as a partial operation,
  so that a division by zero is a fault of the model and not the value 0 of HOL.
\<close>

definition fdiv :: "env \<Rightarrow> real \<Rightarrow> real \<Rightarrow> fault + real" where
  "fdiv E a b = (if b = 0 then Inl DivisionByZero else Inr (round_float E (a / b)))"

primrec inv_extents :: "env \<Rightarrow> real list \<Rightarrow> fault + real list" where
  "inv_extents E [] = Inr []"
| "inv_extents E (e # es) =
    bindF (if isNearlyEqual E e 0 then Inr 0 else fdiv E 1 e)
      (\<lambda>v. bindF (inv_extents E es) (\<lambda>vs. Inr (v # vs)))"

definition normalized_centroid ::
  "env \<Rightarrow> BoundingBox \<Rightarrow> real list \<Rightarrow> real list \<Rightarrow> real list" where
  "normalized_centroid E aabb min_coord inv_extent =
    map2 (\<lambda>c s. round_float E (c * s))
      (map2 (\<lambda>c m. round_float E (c - m)) (getCentroid E aabb) min_coord) inv_extent"

definition get_mcodes ::
  "env \<Rightarrow> BoundingBox list \<Rightarrow> int32 \<Rightarrow> BoundingBox \<Rightarrow> uint32 list \<Rightarrow> fault + uint32 list" where
  "get_mcodes E aabbs sz bounds mcodes =
    (let extent = map2 (\<lambda>hi lo. round_float E (hi - lo)) (getMax bounds) (getMin bounds);
         min_coord = getMin bounds
     in bindF (inv_extents E extent)
          (\<lambda>inv_extent.
             for_all sz
               (\<lambda>i mcodes. bindF (load aabbs i)
                  (\<lambda>aabb. store mcodes i
                     (morton32_encode E (normalized_centroid E aabb min_coord inv_extent))))
               mcodes))"

subsection \<open>Sorting and reordering\<close>

definition array_counting :: "int32 list \<Rightarrow> int32 \<Rightarrow> int32 \<Rightarrow> int32 \<Rightarrow> fault + int32 list" where
  "array_counting iterator sz start step =
    for_all sz (\<lambda>i iterator. store iterator i (start + i * step)) iterator"

text \<open>
  \<^verbatim>\<open>reorder\<close> gathers into a fresh array \<open>temp\<close> of \<open>size\<close> uninitialised entries and
  moves it into \<open>array\<close>.
\<close>

definition reorder :: "int32 list \<Rightarrow> 'a list \<Rightarrow> int32 \<Rightarrow> 'a list \<Rightarrow> fault + 'a list" where
  "reorder indices array sz temp =
    for_all sz
      (\<lambda>i temp_v. bindF (load indices i) (\<lambda>in_idx. bindF (load array in_idx) (store temp_v i)))
      temp"

text \<open>
  \<^verbatim>\<open>sort_mcodes\<close> is the branch that falls back to \<^verbatim>\<open>std::stable_sort\<close> (the other branch
  calls \<^verbatim>\<open>RAJA::stable_sort_pairs\<close>, which is outside the sources). The standard library's
  stable sort of the first \<open>size\<close> indices under the comparator
  \<^verbatim>\<open>mcodes[i1] < mcodes[i2]\<close> is \<^const>\<open>sort_key\<close>, HOL's stable sort, on the unsigned order
  of the codes. The result is the pair of the code array and the index array.
\<close>

definition stable_sort :: "int32 list \<Rightarrow> int32 \<Rightarrow> uint32 list \<Rightarrow> int32 list" where
  "stable_sort iter sz mcodes =
    sort_key (\<lambda>i. mcodes ! nat i) (take (nat sz) iter) @ drop (nat sz) iter"

definition sort_mcodes ::
  "env \<Rightarrow> uint32 list \<Rightarrow> int32 \<Rightarrow> int32 list \<Rightarrow> fault + (uint32 list \<times> int32 list)" where
  "sort_mcodes E mcodes sz iter =
    bindF (array_counting iter sz 0 1)
      (\<lambda>iter. let iter = stable_sort iter sz mcodes
             in bindF (reorder iter mcodes sz (map (junk_code E) [0..<nat sz]))
                  (\<lambda>mcodes. Inr (mcodes, iter)))"

subsection \<open>build_tree\<close>

definition build_node :: "int32 \<Rightarrow> RadixTree \<Rightarrow> fault + RadixTree" where
  "build_node i data =
    (let inner_size = m_inner_size data
     in case node_split i inner_size (m_mcodes data) of
          None \<Rightarrow> Inl NonTermination
        | Some (j, split) \<Rightarrow>
            bindF (if min i j = split
                   then bindF (store (m_parents data) (split + inner_size) i)
                          (\<lambda>ps. bindF (store (m_left_children data) i (split + inner_size))
                             (\<lambda>ls. Inr (data\<lparr>m_parents := ps, m_left_children := ls\<rparr>)))
                   else bindF (store (m_parents data) split i)
                          (\<lambda>ps. bindF (store (m_left_children data) i split)
                             (\<lambda>ls. Inr (data\<lparr>m_parents := ps, m_left_children := ls\<rparr>))))
              (\<lambda>data.
                 bindF (if max i j = split + 1
                        then bindF (store (m_parents data) (split + inner_size + 1) i)
                               (\<lambda>ps. bindF (store (m_right_children data) i (split + inner_size + 1))
                                  (\<lambda>rs. Inr (data\<lparr>m_parents := ps, m_right_children := rs\<rparr>)))
                        else bindF (store (m_parents data) (split + 1) i)
                               (\<lambda>ps. bindF (store (m_right_children data) i (split + 1))
                                  (\<lambda>rs. Inr (data\<lparr>m_parents := ps, m_right_children := rs\<rparr>))))
                   (\<lambda>data.
                      if i = 0
                      then bindF (store (m_parents data) 0 (- 1))
                             (\<lambda>ps. Inr (data\<lparr>m_parents := ps\<rparr>))
                      else Inr data)))"

definition build_tree :: "RadixTree \<Rightarrow> fault + RadixTree" where
  "build_tree data = for_all (m_inner_size data) build_node data"

subsection \<open>propagate_aabbs\<close>

text \<open>
  The state of the propagation: the internal boxes and the counters. \<open>stores\<close> is not a
  variable of the program; it records, in order, the nodes whose box \<^verbatim>\<open>sync_store\<close> has
  written, so that "written exactly once" can be stated. \<^verbatim>\<open>sync_load\<close> and \<^verbatim>\<open>sync_store\<close>
  are a plain read and a plain write under the sequential policy.
\<close>

record prop_state =
  inner_aabbs :: "BoundingBox list"
  counters :: "int32 list"
  stores :: "int32 list"

definition atomic_increment :: "int32 \<Rightarrow> prop_state \<Rightarrow> fault + (int32 \<times> prop_state)" where
  "atomic_increment addr st =
    bindF (load (counters st) addr)
      (\<lambda>old. bindF (store (counters st) addr (old + 1))
         (\<lambda>cs. Inr (old, st\<lparr>counters := cs\<rparr>)))"

text \<open>
  The walk \<^verbatim>\<open>while(current_node != -1)\<close> of one leaf. \<open>None\<close> is a walk that does not
  terminate; \<open>Some (Inl f)\<close> a walk that leaves an array.
\<close>

partial_function (option) walk ::
  "RadixTree \<Rightarrow> BoundingBox \<Rightarrow> int32 \<Rightarrow> int32 \<Rightarrow> prop_state \<Rightarrow> (fault + prop_state) option" where
  "walk data aabb last_node current_node st =
    (if current_node = - 1 then Some (Inr st)
     else case atomic_increment current_node st of
       Inl e \<Rightarrow> Some (Inl e)
     | Inr (old, st) \<Rightarrow>
        if old = 0 then Some (Inr st)
        else case bindF (load (m_left_children data) current_node)
               (\<lambda>lchild. bindF (load (m_right_children data) current_node)
                 (\<lambda>rchild.
                    let other_child = (if lchild = last_node then rchild else lchild)
                    in bindF (if other_child \<ge> m_inner_size data
                              then load (m_leaf_aabbs data) (other_child - m_inner_size data)
                              else load (inner_aabbs st) other_child)
                         (\<lambda>other_aabb.
                            let aabb = addBox aabb other_aabb
                            in bindF (store (inner_aabbs st) current_node aabb)
                                 (\<lambda>bs. bindF (load (m_parents data) current_node)
                                    (\<lambda>parent. Inr (aabb, parent,
                                       st\<lparr>inner_aabbs := bs,
                                          stores := stores st @ [current_node]\<rparr>)))))) of
          Inl e \<Rightarrow> Some (Inl e)
        | Inr (aabb, parent, st) \<Rightarrow> walk data aabb current_node parent st)"

definition leaf_walk :: "RadixTree \<Rightarrow> int32 \<Rightarrow> prop_state \<Rightarrow> fault + prop_state" where
  "leaf_walk data i st =
    bindF (load (m_leaf_aabbs data) i)
      (\<lambda>aabb. bindF (load (m_parents data) (m_inner_size data + i))
         (\<lambda>current_node.
            case walk data aabb (m_inner_size data + i) current_node st of
              None \<Rightarrow> Inl NonTermination
            | Some r \<Rightarrow> r))"

definition propagate_aabbs :: "env \<Rightarrow> RadixTree \<Rightarrow> fault + (RadixTree \<times> prop_state)" where
  "propagate_aabbs E data =
    (let inner_size = m_inner_size data;
         leaf_size = m_inner_size data + 1
     in if leaf_size \<noteq> m_size data then Inl AssertionFailed
        else bindF (for_all inner_size (\<lambda>idx bs. store bs idx (invalid_box E)) (m_inner_aabbs data))
          (\<lambda>bs. bindF (for_all leaf_size (leaf_walk data)
                         \<lparr>inner_aabbs = bs, counters = replicate (nat inner_size) 0, stores = []\<rparr>)
             (\<lambda>st. Inr (data\<lparr>m_inner_aabbs := inner_aabbs st\<rparr>, st))))"

subsection \<open>build_radix_tree\<close>

text \<open>
  The caller's memory: the input array \<open>boxes\<close>, the output parameter \<open>bounds\<close> and the
  tree. They are distinct objects.
\<close>

record caller =
  boxes :: "BoundingBox list"
  bounds :: BoundingBox
  radix_tree :: RadixTree

definition build_radix_tree :: "env \<Rightarrow> int32 \<Rightarrow> real \<Rightarrow> caller \<Rightarrow> fault + caller" where
  "build_radix_tree E sz scale_factor c =
    (if \<not> sz > 0 then Inl AssertionFailed
     else
      let rt = allocate E sz
      in bindF (transform_boxes E (boxes c) (m_leaf_aabbs rt) sz scale_factor)
       (\<lambda>aabbs. let rt = rt\<lparr>m_leaf_aabbs := aabbs\<rparr>
        in bindF (reduce E (m_leaf_aabbs rt) sz)
         (\<lambda>b. let c = c\<lparr>bounds := b\<rparr>
          in bindF (get_mcodes E (m_leaf_aabbs rt) sz (bounds c) (m_mcodes rt))
           (\<lambda>codes. bindF (sort_mcodes E codes sz (m_leafs rt))
             (\<lambda>(codes, leafs). let rt = rt\<lparr>m_mcodes := codes, m_leafs := leafs\<rparr>
              in bindF (reorder (m_leafs rt) (m_leaf_aabbs rt) sz
                          (map (junk_box E) [0..<nat sz]))
               (\<lambda>aabbs. let rt = rt\<lparr>m_leaf_aabbs := aabbs\<rparr>
                in bindF (build_tree rt)
                 (\<lambda>rt. bindF (propagate_aabbs E rt)
                   (\<lambda>(rt, st). Inr (c\<lparr>radix_tree := rt\<rparr>)))))))))"

subsection \<open>An instance of the parameters\<close>

text \<open>
  To run the model on concrete inputs the parameters are instantiated: two dimensions,
  exact arithmetic (the numbers of the runs below are small multiples of powers of two,
  which single and double precision represent exactly, so that no operation on them
  rounds), the largest finite single-precision number, scaling about the centre of the box,
  \<^verbatim>\<open>isNearlyEqual\<close> with the tolerance \<open>10\<^sup>-\<^sup>8\<close>, bit interleaving of 16-bit coordinates,
  and zeros in freshly allocated memory.
\<close>

fun interleave_bits :: "nat \<Rightarrow> int list \<Rightarrow> int" where
  "interleave_bits 0 p = 0"
| "interleave_bits (Suc b) p =
    foldr (\<lambda>c acc. c mod 2 + 2 * acc) p (interleave_bits b (map (\<lambda>c. c div 2) p))"

definition scale_about_centre :: "real \<Rightarrow> BoundingBox \<Rightarrow> BoundingBox" where
  "scale_about_centre s b =
    \<lparr>getMin = map2 (\<lambda>lo hi. (lo + hi) / 2 - s / 2 * (hi - lo)) (getMin b) (getMax b),
     getMax = map2 (\<lambda>lo hi. (lo + hi) / 2 + s / 2 * (hi - lo)) (getMin b) (getMax b)\<rparr>"

definition example_env :: env where
  "example_env =
    \<lparr>NDIMS = 2,
     round_float = (\<lambda>x. x),
     float_max = 340282346638528859811704183484516925440,
     box_scale = scale_about_centre,
     isNearlyEqual = (\<lambda>a b. \<bar>a - b\<bar> \<le> 1 / 100000000),
     convertPointToMorton = (\<lambda>p. word_of_int (interleave_bits 16 p)),
     junk_int = (\<lambda>_. 0),
     junk_code = (\<lambda>_. 0),
     junk_box = (\<lambda>_. \<lparr>getMin = [], getMax = []\<rparr>)\<rparr>"


subsection \<open>A run of the builder\<close>

text \<open>
  Three boxes in the plane, and the tree that \<^verbatim>\<open>build_radix_tree\<close> builds from them
  under the parameters above: the codes sort the boxes into the order 1, 2, 0, node 0
  has leaf 2 and node 1 as children, node 1 has the leaves 3 and 4.
\<close>

definition ex_boxes :: "BoundingBox list" where
  "ex_boxes = [\<lparr>getMin = [2, 2], getMax = [4, 4]\<rparr>, \<lparr>getMin = [0, 0], getMax = [2, 2]\<rparr>,
               \<lparr>getMin = [0, 2], getMax = [2, 4]\<rparr>]"

definition ex_caller :: caller where
  "ex_caller = \<lparr>boxes = ex_boxes, bounds = \<lparr>getMin = [], getMax = []\<rparr>,
     radix_tree = allocate example_env 0\<rparr>"

definition ex_tree :: RadixTree where
  "ex_tree = \<lparr>m_size = 3, m_inner_size = 2, m_left_children = [2, 3], m_right_children = [1, 4],
     m_parents = [- 1, 0, 0, 1, 1], m_mcodes = [805306368, 2952790016, 4026531840],
     m_leafs = [1, 2, 0],
     m_leaf_aabbs = [\<lparr>getMin = [0, 0], getMax = [2, 2]\<rparr>, \<lparr>getMin = [0, 2], getMax = [2, 4]\<rparr>,
                     \<lparr>getMin = [2, 2], getMax = [4, 4]\<rparr>],
     m_inner_aabbs = [\<lparr>getMin = [0, 0], getMax = [4, 4]\<rparr>, \<lparr>getMin = [0, 2], getMax = [4, 4]\<rparr>]\<rparr>"

definition ex_result :: caller where
  "ex_result = ex_caller\<lparr>bounds := \<lparr>getMin = [0, 0], getMax = [4, 4]\<rparr>, radix_tree := ex_tree\<rparr>"

definition ex_built :: RadixTree where
  "ex_built = ex_tree\<lparr>m_inner_aabbs := map (junk_box example_env) [0..<2]\<rparr>"

text \<open>
  The part of a tree that \<^verbatim>\<open>build_tree\<close> does not touch, as a relation between the tree
  before and after.
\<close>

definition same_leaves :: "RadixTree \<Rightarrow> RadixTree \<Rightarrow> bool" where
  "same_leaves a b \<longleftrightarrow> m_size b = m_size a \<and> m_inner_size b = m_inner_size a
     \<and> m_mcodes b = m_mcodes a \<and> m_leafs b = m_leafs a \<and> m_leaf_aabbs b = m_leaf_aabbs a
     \<and> m_inner_aabbs b = m_inner_aabbs a
     \<and> length (m_parents b) = length (m_parents a)
     \<and> length (m_left_children b) = length (m_left_children a)
     \<and> length (m_right_children b) = length (m_right_children a)"

text \<open>
  The radix key of a position: the code followed by the position itself. \<^verbatim>\<open>delta\<close> of
  two positions inside the array is the length of the common prefix of their 64-bit
  keys; \<open>agree\<close> says that two keys share their first \<open>m\<close> bits.
\<close>

definition key :: "uint32 list \<Rightarrow> nat \<Rightarrow> nat" where
  "key mcodes k = unat (mcodes ! k) * 2 ^ 32 + k"

definition agree :: "uint32 list \<Rightarrow> nat \<Rightarrow> nat \<Rightarrow> nat \<Rightarrow> bool" where
  "agree mcodes a b m \<longleftrightarrow> key mcodes a div 2 ^ (64 - m) = key mcodes b div 2 ^ (64 - m)"

subsection \<open>The shape of a radix tree\<close>

text \<open>
  The link arrays of a radix tree are meant to describe a binary tree. To state what
  \<^verbatim>\<open>propagate_aabbs\<close> computes on such a tree its shape is made explicit: a \<open>tree\<close> carries
  the node ids; \<open>linked\<close> says that the child and parent arrays agree with it, that the
  ids of its inner nodes are below \<open>inner_size\<close> and that its leaf ids, less \<open>inner_size\<close>,
  are positions of the leaf boxes; \<open>well_formed\<close> adds that the ids are exactly those of
  the inner nodes \<open>[0, n - 1)\<close> and of the leaves \<open>[n - 1, 2n - 1)\<close>, each once, and that
  the parent of the root is \<open>- 1\<close>. \<open>box\<close> is the union of the leaf boxes below a node;
  \<open>node_box\<close> reads the box of a child id the way \<^verbatim>\<open>propagate_aabbs\<close> does, from the sorted
  leaf boxes for a leaf id and from the inner boxes otherwise. \<open>ex_shape\<close> is the shape of
  the tree of the run above.
\<close>

datatype tree = Leaf nat | Node nat tree tree

fun root :: "tree \<Rightarrow> nat" where
  "root (Leaf k) = k"
| "root (Node k l r) = k"


fun leaves :: "tree \<Rightarrow> nat set" where
  "leaves (Leaf k) = {k}"
| "leaves (Node k l r) = leaves l \<union> leaves r"

fun inner_ids :: "tree \<Rightarrow> nat set" where
  "inner_ids (Leaf k) = {}"
| "inner_ids (Node k l r) = insert k (inner_ids l \<union> inner_ids r)"



fun box :: "RadixTree \<Rightarrow> tree \<Rightarrow> BoundingBox" where
  "box data (Leaf k) = m_leaf_aabbs data ! (k - nat (m_inner_size data))"
| "box data (Node k l r) = addBox (box data l) (box data r)"



text \<open>
  The invariant of the loop over the leaves. \<open>D\<close> is the set of leaves whose walk has
  ended, and \<open>cnt D u\<close> is 1 when every leaf below \<open>u\<close> is in \<open>D\<close>. \<open>G\<close> holds of a subtree
  when the counter of each of its inner nodes is the number of its children that are
  complete in this sense and, where both are, its box is the union of theirs. A
  \<open>frame\<close> is one step of the path from a node towards the root: the id of the parent,
  whether the node is the left child, and the sibling subtree; \<open>plug\<close> puts a subtree
  back under its path and \<open>join\<close> under one frame; \<open>FR\<close> is the invariant of the siblings
  along a path. \<open>J\<close> relates the stores to the counters: a node whose counter is at most
  1 has not been stored, a node whose counter is 2 has been stored once.
\<close>

definition cnt :: "nat set \<Rightarrow> tree \<Rightarrow> int32" where
  "cnt D u = (if leaves u \<subseteq> D then 1 else 0)"

fun G :: "RadixTree \<Rightarrow> nat set \<Rightarrow> prop_state \<Rightarrow> tree \<Rightarrow> bool" where
  "G data D st (Leaf k) \<longleftrightarrow> True"
| "G data D st (Node k l r) \<longleftrightarrow>
     counters st ! k = cnt D l + cnt D r
     \<and> (leaves l \<subseteq> D \<and> leaves r \<subseteq> D \<longrightarrow> inner_aabbs st ! k = addBox (box data l) (box data r))
     \<and> G data D st l \<and> G data D st r"

type_synonym frame = "nat \<times> bool \<times> tree"

fun plug :: "tree \<Rightarrow> frame list \<Rightarrow> tree" where
  "plug u [] = u"
| "plug u ((k, True, w) # c) = plug (Node k u w) c"
| "plug u ((k, False, w) # c) = plug (Node k w u) c"



fun FR :: "RadixTree \<Rightarrow> nat set \<Rightarrow> prop_state \<Rightarrow> frame list \<Rightarrow> bool" where
  "FR data D st [] \<longleftrightarrow> True"
| "FR data D st ((k, s, w) # c) \<longleftrightarrow> counters st ! k = cnt D w \<and> G data D st w \<and> FR data D st c"



fun ctx_inner :: "frame list \<Rightarrow> nat set" where
  "ctx_inner [] = {}"
| "ctx_inner ((k, s, w) # c) = insert k (inner_ids w) \<union> ctx_inner c"



subsection \<open>A large array of codes\<close>

text \<open>
  \<open>2 ^ 24 + 2\<close> sorted codes: \<open>2 ^ 24 + 1\<close> equal codes (primitives whose centroids fall
  into one cell) and one larger code. \<open>big_tree\<close> is the tree as \<^verbatim>\<open>build_tree\<close> receives
  it, the link arrays still holding what allocation left in them.
\<close>

definition big_codes :: "uint32 list" where
  "big_codes = replicate 16777217 0 @ [2147483648]"

text \<open>\<open>2 ^ 30 + 1\<close> equal codes, a sorted array.\<close>

definition huge_codes :: "uint32 list" where
  "huge_codes = replicate 1073741825 0"

definition big_tree :: RadixTree where
  "big_tree =
    \<lparr>m_size = 16777218, m_inner_size = 16777217,
     m_left_children = replicate 16777217 9,
     m_right_children = replicate 16777217 9,
     m_parents = replicate 33554435 9,
     m_mcodes = big_codes,
     m_leafs = map int [0..<16777218],
     m_leaf_aabbs = replicate 16777217 \<lparr>getMin = [0, 0], getMax = [0, 0]\<rparr>
                      @ [\<lparr>getMin = [0, 2], getMax = [0, 2]\<rparr>],
     m_inner_aabbs = replicate 16777217 \<lparr>getMin = [], getMax = []\<rparr>\<rparr>"

section \<open>Properties\<close>

subsection \<open>Leading zeros\<close>

lemma floorlog2_unat_le: "floorlog 2 (unat (w :: uint32)) \<le> 32"
proof -
  have "unat w < 2 ^ 32"
    using unsigned_less [of w] by simp
  then show ?thesis
    by (simp add: floorlog_le_iff)
qed

lemma leadingZeros_nonneg: "0 \<le> leadingZeros w"
  using floorlog2_unat_le [of w] by (simp add: leadingZeros_def)

lemma leadingZeros_le: "leadingZeros w \<le> 32"
  by (simp add: leadingZeros_def)

lemma leadingZeros_zero: "leadingZeros 0 = 32"
  by (simp add: leadingZeros_def floorlog_eq_zero_iff)

text \<open>
  The model agrees with the bit-level reading of "number of leading zero bits":
  the top \<open>k\<close> bits of \<open>w\<close> are clear exactly when \<open>leadingZeros w\<close> is at least \<open>k\<close>.
\<close>

lemma leadingZeros_ge_iff:
  assumes "k \<le> 32"
  shows "int k \<le> leadingZeros w \<longleftrightarrow> unat w < 2 ^ (32 - k)"
proof -
  have "int k \<le> leadingZeros w \<longleftrightarrow> floorlog 2 (unat w) \<le> 32 - k"
    using assms floorlog2_unat_le [of w] by (auto simp: leadingZeros_def)
  also have "\<dots> \<longleftrightarrow> unat w < 2 ^ (32 - k)"
    by (simp add: floorlog_le_iff)
  finally show ?thesis .
qed

subsection \<open>C3: the delta metric\<close>

lemma delta_out_of_range:
  "b < 0 \<or> b > inner_size \<Longrightarrow> delta a b inner_size mcodes = - 1"
  by (simp add: delta_def Let_def)

lemma delta_in_range:
  "0 \<le> b \<Longrightarrow> b \<le> inner_size \<Longrightarrow>
   delta a b inner_size mcodes =
     (if mcodes ! nat a XOR mcodes ! nat b = 0
      then leadingZeros ((word_of_int a :: uint32) XOR word_of_int b) + 32
      else leadingZeros (mcodes ! nat a XOR mcodes ! nat b))"
  by (simp add: delta_def Let_def)

lemma delta_in_range_nonneg:
  "0 \<le> b \<Longrightarrow> b \<le> inner_size \<Longrightarrow> 0 \<le> delta a b inner_size mcodes"
  using leadingZeros_nonneg [of "mcodes ! nat a XOR mcodes ! nat b"]
    leadingZeros_nonneg [of "(word_of_int a :: uint32) XOR word_of_int b"]
  by (simp add: delta_in_range)

lemma delta_ge_minus_one: "- 1 \<le> delta a b inner_size mcodes"
proof (cases "b < 0 \<or> b > inner_size")
  case True
  then show ?thesis by (simp add: delta_out_of_range)
next
  case False
  then show ?thesis using delta_in_range_nonneg [of b inner_size a mcodes] by simp
qed

text \<open>
  C3. For a position \<open>a\<close> of the code array (\<open>inner_size = n - 1\<close>) and any \<open>b\<close>, delta
  returns \<open>-1\<close> exactly when \<open>b\<close> lies outside \<open>[0, n - 1]\<close>; inside the range it is the
  number of leading zeros of the XOR of the two codes, or, when the codes are equal,
  32 plus the number of leading zeros of the XOR of the two positions.
\<close>

theorem delta_spec:
  assumes "0 \<le> a" and "a \<le> inner_size" and "int (length mcodes) = inner_size + 1"
  shows "(delta a b inner_size mcodes = - 1 \<longleftrightarrow> b < 0 \<or> b > inner_size)
    \<and> (0 \<le> b \<and> b \<le> inner_size \<longrightarrow>
         delta a b inner_size mcodes =
           (if mcodes ! nat a = mcodes ! nat b
            then 32 + leadingZeros ((word_of_int a :: uint32) XOR word_of_int b)
            else leadingZeros (mcodes ! nat a XOR mcodes ! nat b)))"
proof (cases "b < 0 \<or> b > inner_size")
  case True
  then show ?thesis by (auto simp: delta_out_of_range)
next
  case False
  then have b: "0 \<le> b" "b \<le> inner_size" by simp_all
  have "delta a b inner_size mcodes \<noteq> - 1"
    using delta_in_range_nonneg [OF b, of a mcodes] by simp
  moreover have "mcodes ! nat a XOR mcodes ! nat b = 0 \<longleftrightarrow> mcodes ! nat a = mcodes ! nat b"
    by (metis bit.xor_left_self xor.right_neutral xor_self_eq)
  ultimately show ?thesis
    using b by (simp add: delta_in_range)
qed

theorem delta_spec_witness:
  "(delta 1 2 2 [5, 5, 9] = 28) \<and> (delta 1 0 2 [5, 5, 9] = 63) \<and> (delta 1 3 2 [5, 5, 9] = - 1)"
  using delta_spec [of 1 2 "[5, 5, 9]" 2] delta_spec [of 1 2 "[5, 5, 9]" 0]
    delta_spec [of 1 2 "[5, 5, 9]" 3]
  by (simp add: leadingZeros_def compute_floorlog)

subsection \<open>Loops over arrays\<close>

lemma bindF_Inr [simp]: "bindF (Inr x) f = f x"
  by (simp add: bindF_def)

lemma bindF_Inl [simp]: "bindF (Inl e) f = Inl e"
  by (simp add: bindF_def)

lemma bindF_eq_Inr_iff: "bindF m f = Inr y \<longleftrightarrow> (\<exists>x. m = Inr x \<and> f x = Inr y)"
  by (cases m) simp_all

lemma for_each_append:
  "for_each (xs @ ys) body s = bindF (for_each xs body s) (for_each ys body)"
  by (induction xs arbitrary: s) (simp_all add: bindF_def split: sum.splits)

lemma for_all_Suc:
  "for_all (int (Suc n)) body s = bindF (for_all (int n) body s) (body (int n))"
proof -
  have "for_each [int n] body = body (int n)"
    by (rule ext) (simp add: bindF_def split: sum.splits)
  then show ?thesis
    by (simp add: for_all_def for_each_append del: of_nat_Suc)
qed

lemma for_all_0 [simp]: "for_all 0 body s = Inr s"
  by (simp add: for_all_def)

lemma store_in [simp]: "k < length xs \<Longrightarrow> store xs (int k) v = Inr (xs[k := v])"
  by (simp add: store_def)

lemma load_in [simp]: "k < length xs \<Longrightarrow> load xs (int k) = Inr (xs ! k)"
  by (simp add: load_def)

lemma load_nat: "0 \<le> k \<Longrightarrow> k < int (length xs) \<Longrightarrow> load xs k = Inr (xs ! nat k)"
  by (simp add: load_def)

lemma for_all_store_aux:
  assumes body: "\<And>i arr. i < m \<Longrightarrow> length arr = length arr0 \<Longrightarrow>
      body (int i) arr = store arr (int i) (f i)"
    and m: "m \<le> length arr0"
  shows "n \<le> m \<Longrightarrow> for_all (int n) body arr0 = Inr (map f [0..<n] @ drop n arr0)"
proof (induction n)
  case 0
  show ?case by simp
next
  case (Suc n)
  then have less: "n < length arr0" and nm: "n < m" using m by simp_all
  have ih: "for_all (int n) body arr0 = Inr (map f [0..<n] @ drop n arr0)"
    using Suc by simp
  let ?arr = "map f [0..<n] @ drop n arr0"
  have len: "length ?arr = length arr0" using less by simp
  have "body (int n) ?arr = store ?arr (int n) (f n)"
    using body [OF nm len] .
  also have "\<dots> = Inr (?arr[n := f n])"
    using less len by simp
  also have "?arr[n := f n] = map f [0..<Suc n] @ drop (Suc n) arr0"
  proof -
    have "drop n arr0 = arr0 ! n # drop (Suc n) arr0"
      using less by (simp add: Cons_nth_drop_Suc)
    then show ?thesis by (simp add: list_update_append)
  qed
  finally show ?case
    by (simp add: for_all_Suc ih del: of_nat_Suc upt_Suc)
qed

lemma for_all_store:
  assumes "\<And>i arr. i < n \<Longrightarrow> length arr = length arr0 \<Longrightarrow>
      body (int i) arr = store arr (int i) (f i)"
    and "n \<le> length arr0"
  shows "for_all (int n) body arr0 = Inr (map f [0..<n] @ drop n arr0)"
  using for_all_store_aux [of n arr0 body f n] assms by simp

lemma array_counting_eq:
  assumes "n \<le> length iterator"
  shows "array_counting iterator (int n) start step
    = Inr (map (\<lambda>i. start + int i * step) [0..<n] @ drop n iterator)"
  unfolding array_counting_def
  by (rule for_all_store) (use assms in simp_all)

lemma reorder_eq:
  fixes array temp :: "'a list"
  assumes len: "n \<le> length indices" "n \<le> length temp"
    and idx: "\<And>i. i < n \<Longrightarrow> 0 \<le> indices ! i \<and> indices ! i < int (length array)"
  shows "reorder indices array (int n) temp
    = Inr (map (\<lambda>i. array ! nat (indices ! i)) [0..<n] @ drop n temp)"
  unfolding reorder_def
proof (rule for_all_store)
  fix i and arr :: "'a list"
  assume i: "i < n" and "length arr = length temp"
  then show "bindF (load indices (int i)) (\<lambda>in_idx. bindF (load array in_idx) (store arr (int i)))
    = store arr (int i) (array ! nat (indices ! i))"
    using len idx [of i] by (simp add: load_nat)
qed (use len in simp)

lemma transform_boxes_eq:
  assumes "n \<le> length bxs" "n \<le> length aabbs"
  shows "transform_boxes E bxs aabbs (int n) sf
    = Inr (map (\<lambda>i. box_scale E sf (bxs ! i)) [0..<n] @ drop n aabbs)"
  unfolding transform_boxes_def
  by (rule for_all_store) (use assms in simp_all)

lemma filter_before:
  assumes "sorted_wrt (<) (filter P ys)" "p < q" "q < length ys" "P (ys ! p)" "P (ys ! q)"
  shows "ys ! p < ys ! q"
proof -
  have ys: "ys = take q ys @ ys ! q # drop (Suc q) ys"
    using assms(3) by (simp add: id_take_nth_drop)
  have "filter P ys = filter P (take q ys) @ ys ! q # filter P (drop (Suc q) ys)"
    by (subst ys) (simp add: assms(5))
  with assms(1) have "\<forall>x \<in> set (filter P (take q ys)). x < ys ! q"
    by (simp add: sorted_wrt_append)
  moreover have "ys ! p \<in> set (take q ys)"
  proof -
    have "take q ys ! p \<in> set (take q ys)"
      by (rule nth_mem) (use assms(2,3) in simp)
    then show ?thesis using assms(2) by simp
  qed
  ultimately show ?thesis using assms(4) by simp
qed

lemma stable_sort_counting:
  assumes "length iter = n"
  shows "stable_sort (map (\<lambda>i. 0 + int i * 1) [0..<n] @ drop n iter) (int n) mcodes
     = sort_key (\<lambda>i. mcodes ! nat i) (map int [0..<n])"
  using assms by (simp add: stable_sort_def)

lemma sort_mcodes_eq:
  assumes "length mcodes = n" "length iter = n"
  shows "sort_mcodes E mcodes (int n) iter =
    Inr (map (\<lambda>i. mcodes ! nat i) (sort_key (\<lambda>i. mcodes ! nat i) (map int [0..<n])),
         sort_key (\<lambda>i. mcodes ! nat i) (map int [0..<n]))"
proof -
  let ?it = "sort_key (\<lambda>i. mcodes ! nat i) (map int [0..<n])"
  have set: "set ?it = int ` {0..<n}" by simp
  have idx: "0 \<le> ?it ! i \<and> ?it ! i < int (length mcodes)" if "i < n" for i
  proof -
    have "?it ! i \<in> set ?it" using that by (intro nth_mem) simp
    then show ?thesis using assms(1) unfolding set by auto
  qed
  have "reorder ?it mcodes (int n) (map (junk_code E) [0..<n])
      = Inr (map (\<lambda>i. mcodes ! nat (?it ! i)) [0..<n] @ drop n (map (junk_code E) [0..<n]))"
    by (rule reorder_eq) (use idx in simp_all)
  moreover have "map (\<lambda>i. mcodes ! nat (?it ! i)) [0..<n] = map (\<lambda>i. mcodes ! nat i) ?it"
    by (rule nth_equalityI) simp_all
  ultimately show ?thesis
    using assms by (simp add: sort_mcodes_def array_counting_eq stable_sort_def Let_def)
qed


lemma sort_key_counting_props:
  fixes key :: "int \<Rightarrow> uint32" and n :: nat
  defines "it \<equiv> sort_key key (map int [0..<n])"
  shows "length it = n" "distinct it" "set it = {0..<int n}"
    "sorted (map key it)"
    "\<And>p q. p < q \<Longrightarrow> q < n \<Longrightarrow> key (it ! p) = key (it ! q) \<Longrightarrow> it ! p < it ! q"
proof -
  show len: "length it = n" by (simp add: it_def)
  show "distinct it" by (simp add: it_def distinct_map)
  show "set it = {0..<int n}"
    by (simp add: it_def image_int_atLeastLessThan)
  show "sorted (map key it)" by (simp add: it_def)
  fix p q assume pq: "p < q" "q < n" "key (it ! p) = key (it ! q)"
  let ?P = "\<lambda>y. key y = key (it ! q)"
  have "filter ?P it = filter ?P (map int [0..<n])"
    unfolding it_def by (rule sort_key_stable)
  moreover have "sorted_wrt (<) (map int [0..<n])"
    by (simp add: sorted_wrt_map sorted_wrt_iff_nth_less)
  ultimately have "sorted_wrt (<) (filter ?P it)"
    by (simp add: sorted_wrt_filter)
  then show "it ! p < it ! q"
    by (rule filter_before) (use pq len in simp_all)
qed

subsection \<open>Evaluation of the loops and of the example\<close>

lemma floorlog2_numeral [simp]:
  "floorlog 2 0 = 0"
  "floorlog 2 1 = 1"
  "floorlog 2 (Suc 0) = 1"
  "floorlog 2 (numeral Num.One) = 1"
  "floorlog 2 (numeral (Num.Bit0 n)) = floorlog 2 (numeral n) + 1"
  "floorlog 2 (numeral (Num.Bit1 n)) = floorlog 2 (numeral n) + 1"
proof -
  show "floorlog 2 0 = 0" by (simp add: floorlog_eq_zero_iff)
  show a: "floorlog 2 1 = 1" by (subst compute_floorlog) (simp add: floorlog_eq_zero_iff)
  then show "floorlog 2 (Suc 0) = 1" by simp
  show "floorlog 2 (numeral Num.One) = 1" using a by simp
  have "numeral (Num.Bit0 n) div 2 = (numeral n :: nat)"
    by (simp add: numeral_Bit0_div_2)
  then show "floorlog 2 (numeral (Num.Bit0 n)) = floorlog 2 (numeral n) + 1"
    by (subst compute_floorlog) simp
  have "numeral (Num.Bit1 n) div 2 = (numeral n :: nat)"
    by (simp add: numeral_Bit1_div_2)
  then show "floorlog 2 (numeral (Num.Bit1 n)) = floorlog 2 (numeral n) + 1"
    by (subst compute_floorlog) simp
qed

lemma wrap32_id: "- 2147483648 \<le> x \<Longrightarrow> x < 2147483648 \<Longrightarrow> wrap32 x = x"
  by (simp add: wrap32_def)

lemma find_lmax_step:
  "delta i (wrap32 (i + wrap32 (lmax * d))) inner_size mcodes > min_delta \<Longrightarrow>
   find_lmax i d min_delta inner_size mcodes lmax
     = find_lmax i d min_delta inner_size mcodes (wrap32 (lmax * 2))"
  by (subst find_lmax.simps) simp

lemma find_lmax_stop:
  "\<not> delta i (wrap32 (i + wrap32 (lmax * d))) inner_size mcodes > min_delta \<Longrightarrow>
   find_lmax i d min_delta inner_size mcodes lmax = Some lmax"
  by (subst find_lmax.simps) simp

lemma find_l_step:
  "t \<ge> 1 \<Longrightarrow> find_l i d min_delta inner_size mcodes t l =
     find_l i d min_delta inner_size mcodes (t div 2)
            (if delta i (i + (l + t) * d) inner_size mcodes > min_delta then l + t else l)"
  by (subst find_l.simps) simp

lemma find_l_stop:
  "\<not> t \<ge> 1 \<Longrightarrow> find_l i d min_delta inner_size mcodes t l = l"
  by (subst find_l.simps) simp

lemma ceiling_numeral_div:
  "\<lceil>real_of_int a / numeral b\<rceil> = - ((- a) div numeral b)"
  using ceiling_divide_eq_div [of a "numeral b"] by simp

lemma find_split_step_num:
  assumes "- ((- float32 l) div numeral b) \<noteq> 1"
  shows "find_split i d delta_node inner_size mcodes l (numeral b) s =
    find_split i d delta_node inner_size mcodes l (numeral (Num.Bit0 b))
      (if delta i (i + (s + - ((- float32 l) div numeral b)) * d) inner_size mcodes > delta_node
       then s + - ((- float32 l) div numeral b) else s)"
proof -
  have "(numeral b :: real) * 2 = numeral b + numeral b" by (rule mult_2_right)
  then have eq: "(numeral b :: real) * 2 = numeral (Num.Bit0 b)"
    by (simp only: numeral_Bit0)
  have "find_split i d delta_node inner_size mcodes l (numeral b) s =
    (let t = \<lceil>real_of_int (float32 l) / numeral b\<rceil>;
         s = (if delta i (i + (s + t) * d) inner_size mcodes > delta_node then s + t else s)
     in if t = 1 then Some s
        else find_split i d delta_node inner_size mcodes l (numeral b * 2) s)"
    by (rule find_split.simps)
  then show ?thesis
    unfolding eq ceiling_numeral_div Let_def using assms by simp
qed

lemma find_split_stop_num:
  "- ((- float32 l) div numeral b) = 1 \<Longrightarrow>
   find_split i d delta_node inner_size mcodes l (numeral b) s =
    Some (if delta i (i + (s + 1) * d) inner_size mcodes > delta_node then s + 1 else s)"
  by (subst find_split.simps) (simp add: Let_def ceiling_numeral_div)

lemmas loop_eval = wrap32_def find_lmax_step find_lmax_stop find_l_step find_l_stop
  find_split_step_num find_split_stop_num

lemma interleave_bits_numeral:
  "interleave_bits (numeral k) p =
     foldr (\<lambda>c acc. c mod 2 + 2 * acc) p (interleave_bits (pred_numeral k) (map (\<lambda>c. c div 2) p))"
  by (simp add: numeral_eq_Suc)

lemma upt_numeral:
  "[m..<numeral k] =
     (if m \<le> pred_numeral k then [m..<pred_numeral k] @ [pred_numeral k] else [])"
  by (simp add: numeral_eq_Suc)

lemma replicate_num: "replicate (numeral k) x = x # replicate (pred_numeral k) x"
  by (simp add: numeral_eq_Suc)

lemmas list_eval = upt_numeral replicate_num

lemma ex_transform:
  "transform_boxes example_env ex_boxes (m_leaf_aabbs (allocate example_env 3)) 3 1 = Inr ex_boxes"
  by (simp add: list_eval transform_boxes_def for_all_def allocate_def example_env_def ex_boxes_def
      load_def store_def scale_about_centre_def)

lemma ex_reduce:
  "reduce example_env ex_boxes 3 = Inr \<lparr>getMin = [0, 0], getMax = [4, 4]\<rparr>"
  by (simp add: list_eval reduce_def for_all_def example_env_def ex_boxes_def load_def addBox_def
      invalid_box_def)

lemma ex_coord1: "int_coord example_env (1 / 4) = 16384"
  by (simp add: int_coord_def example_env_def)

lemma ex_coord3: "int_coord example_env (3 / 4) = 49152"
  by (simp add: int_coord_def example_env_def)

lemma ex_il1: "interleave_bits 16 [49152, 49152] = 4026531840"
  by (simp add: interleave_bits_numeral)

lemma ex_il2: "interleave_bits 16 [16384, 16384] = 805306368"
  by (simp add: interleave_bits_numeral)

lemma ex_il3: "interleave_bits 16 [16384, 49152] = 2952790016"
  by (simp add: interleave_bits_numeral)

lemma example_env_sel:
  "NDIMS example_env = 2"
  "float_max example_env = 340282346638528859811704183484516925440"
  "box_scale example_env = scale_about_centre"
  "isNearlyEqual example_env a b \<longleftrightarrow> \<bar>a - b\<bar> \<le> 1 / 100000000"
  "round_float example_env x = x"
  "convertPointToMorton example_env p = word_of_int (interleave_bits 16 p)"
  "junk_int example_env k = 0"
  "junk_code example_env k = 0"
  "junk_box example_env k = \<lparr>getMin = [], getMax = []\<rparr>"
  by (simp_all add: example_env_def)

lemma ex_codes:
  "get_mcodes example_env ex_boxes 3 \<lparr>getMin = [0, 0], getMax = [4, 4]\<rparr>
     (m_mcodes (allocate example_env 3)) = Inr [4026531840, 805306368, 2952790016]"
  by (simp add: list_eval get_mcodes_def for_all_def allocate_def ex_boxes_def example_env_sel fdiv_def
      load_def store_def morton32_encode_def normalized_centroid_def getCentroid_def
      ex_coord1 ex_coord3 ex_il1 ex_il2 ex_il3)

lemma ex_sort:
  "sort_mcodes example_env [4026531840, 805306368, 2952790016] 3
     (m_leafs (allocate example_env 3))
   = Inr ([805306368, 2952790016, 4026531840], [1, 2, 0])"
  by (simp add: list_eval sort_mcodes_def array_counting_def reorder_def stable_sort_def for_all_def
      allocate_def example_env_def load_def store_def)

lemma ex_reorder:
  "reorder [1, 2, 0] ex_boxes 3 (map (junk_box example_env) [0..<nat 3])
   = Inr [\<lparr>getMin = [0, 0], getMax = [2, 2]\<rparr>, \<lparr>getMin = [0, 2], getMax = [2, 4]\<rparr>,
          \<lparr>getMin = [2, 2], getMax = [4, 4]\<rparr>]"
  by (simp add: list_eval reorder_def for_all_def example_env_def ex_boxes_def load_def store_def)

lemma ex_delta:
  "delta 0 1 2 [805306368, 2952790016, 4026531840] = 0"
  "delta 0 2 2 [805306368, 2952790016, 4026531840] = 0"
  "delta 1 0 2 [805306368, 2952790016, 4026531840] = 0"
  "delta 1 2 2 [805306368, 2952790016, 4026531840] = 1"
  by (simp_all add: delta_def leadingZeros_def)

lemma ex_split0: "node_split 0 2 [805306368, 2952790016, 4026531840] = Some (2, 0)"
  by (simp add: node_split_def ex_delta delta_out_of_range float32_def loop_eval)

lemma ex_split1: "node_split 1 2 [805306368, 2952790016, 4026531840] = Some (2, 1)"
  by (simp add: node_split_def ex_delta delta_out_of_range float32_def loop_eval)


lemma build_radix_tree_stagesI:
  assumes "0 < sz"
    and "transform_boxes E (boxes c) (m_leaf_aabbs (allocate E sz)) sz sf = Inr pre"
    and "reduce E pre sz = Inr b"
    and "get_mcodes E pre sz b (m_mcodes (allocate E sz)) = Inr codes"
    and "sort_mcodes E codes sz (m_leafs (allocate E sz)) = Inr (codes', leafs)"
    and "reorder leafs pre sz (map (junk_box E) [0..<nat sz]) = Inr srt"
    and "build_tree ((allocate E sz)\<lparr>m_mcodes := codes', m_leafs := leafs, m_leaf_aabbs := srt\<rparr>)
          = Inr rt"
    and "propagate_aabbs E rt = Inr (rt', st)"
  shows "build_radix_tree E sz sf c = Inr (c\<lparr>bounds := b, radix_tree := rt'\<rparr>)"
  by (simp add: build_radix_tree_def assms)

lemma ex_build_tree:
  "build_tree ((allocate example_env 3)\<lparr>m_mcodes := [805306368, 2952790016, 4026531840],
     m_leafs := [1, 2, 0], m_leaf_aabbs :=
       [\<lparr>getMin = [0, 0], getMax = [2, 2]\<rparr>, \<lparr>getMin = [0, 2], getMax = [2, 4]\<rparr>,
        \<lparr>getMin = [2, 2], getMax = [4, 4]\<rparr>]\<rparr>) = Inr ex_built"
  by (simp add: list_eval build_tree_def build_node_def for_all_def allocate_def example_env_sel
      ex_built_def ex_tree_def store_def ex_split0 ex_split1)

lemma ex_walk0:
  "leaf_walk ex_built 0 \<lparr>inner_aabbs = [b0, b1], counters = [0, 0], stores = []\<rparr>
   = Inr \<lparr>inner_aabbs = [b0, b1], counters = [1, 0], stores = []\<rparr>"
  by (simp add: list_eval leaf_walk_def ex_built_def ex_tree_def load_def store_def atomic_increment_def
      walk.simps)

lemma ex_walk1:
  "leaf_walk ex_built 1 \<lparr>inner_aabbs = [b0, b1], counters = [1, 0], stores = []\<rparr>
   = Inr \<lparr>inner_aabbs = [b0, b1], counters = [1, 1], stores = []\<rparr>"
  by (simp add: list_eval leaf_walk_def ex_built_def ex_tree_def load_def store_def atomic_increment_def
      walk.simps)

lemma ex_walk2:
  "leaf_walk ex_built 2 \<lparr>inner_aabbs = [b0, b1], counters = [1, 1], stores = []\<rparr>
   = Inr \<lparr>inner_aabbs = m_inner_aabbs ex_tree, counters = [2, 2], stores = [1, 0]\<rparr>"
  by (simp add: list_eval leaf_walk_def ex_built_def ex_tree_def load_def store_def atomic_increment_def
      walk.simps addBox_def Let_def)

lemma ex_propagate:
  "propagate_aabbs example_env ex_built =
     Inr (ex_tree, \<lparr>inner_aabbs = m_inner_aabbs ex_tree, counters = [2, 2], stores = [1, 0]\<rparr>)"
proof -
  have "for_all 3 (leaf_walk ex_built)
          \<lparr>inner_aabbs = [invalid_box example_env, invalid_box example_env],
           counters = [0, 0], stores = []\<rparr>
    = Inr \<lparr>inner_aabbs = m_inner_aabbs ex_tree, counters = [2, 2], stores = [1, 0]\<rparr>"
    by (simp add: list_eval for_all_def ex_walk0 ex_walk1 ex_walk2)
  moreover have "for_all 2 (\<lambda>idx bs. store bs idx (invalid_box example_env)) (m_inner_aabbs ex_built)
    = Inr [invalid_box example_env, invalid_box example_env]"
    by (simp add: list_eval for_all_def ex_built_def store_def)
  moreover have "m_inner_size ex_built = 2" "m_size ex_built = 3"
    "ex_built\<lparr>m_inner_aabbs := m_inner_aabbs ex_tree\<rparr> = ex_tree"
    by (simp_all add: list_eval ex_built_def ex_tree_def)
  ultimately show ?thesis
    by (simp add: propagate_aabbs_def list_eval)
qed

lemma ex_pipeline: "build_radix_tree example_env 3 1 ex_caller = Inr ex_result"
proof -
  have "build_radix_tree example_env 3 1 ex_caller
    = Inr (ex_caller\<lparr>bounds := \<lparr>getMin = [0, 0], getMax = [4, 4]\<rparr>, radix_tree := ex_tree\<rparr>)"
  proof (rule build_radix_tree_stagesI)
    show "transform_boxes example_env (boxes ex_caller) (m_leaf_aabbs (allocate example_env 3)) 3 1
      = Inr ex_boxes"
      using ex_transform by (simp add: ex_caller_def)
    show "reduce example_env ex_boxes 3 = Inr \<lparr>getMin = [0, 0], getMax = [4, 4]\<rparr>"
      by (rule ex_reduce)
    show "get_mcodes example_env ex_boxes 3 \<lparr>getMin = [0, 0], getMax = [4, 4]\<rparr>
       (m_mcodes (allocate example_env 3)) = Inr [4026531840, 805306368, 2952790016]"
      by (rule ex_codes)
    show "sort_mcodes example_env [4026531840, 805306368, 2952790016] 3
       (m_leafs (allocate example_env 3)) = Inr ([805306368, 2952790016, 4026531840], [1, 2, 0])"
      by (rule ex_sort)
    show "reorder [1, 2, 0] ex_boxes 3 (map (junk_box example_env) [0..<nat 3])
      = Inr [\<lparr>getMin = [0, 0], getMax = [2, 2]\<rparr>, \<lparr>getMin = [0, 2], getMax = [2, 4]\<rparr>,
          \<lparr>getMin = [2, 2], getMax = [4, 4]\<rparr>]"
      by (rule ex_reorder)
    show "build_tree ((allocate example_env 3)\<lparr>m_mcodes := [805306368, 2952790016, 4026531840],
     m_leafs := [1, 2, 0], m_leaf_aabbs :=
       [\<lparr>getMin = [0, 0], getMax = [2, 2]\<rparr>, \<lparr>getMin = [0, 2], getMax = [2, 4]\<rparr>,
        \<lparr>getMin = [2, 2], getMax = [4, 4]\<rparr>]\<rparr>) = Inr ex_built"
      by (rule ex_build_tree)
    show "propagate_aabbs example_env ex_built =
     Inr (ex_tree, \<lparr>inner_aabbs = m_inner_aabbs ex_tree, counters = [2, 2], stores = [1, 0]\<rparr>)"
      by (rule ex_propagate)
  qed simp
  then show ?thesis by (simp add: ex_result_def)
qed

subsection \<open>What the stages leave unchanged\<close>

lemma store_length: "store xs k v = Inr ys \<Longrightarrow> length ys = length xs"
  by (auto simp: store_def split: if_splits)

lemma for_each_invariant:
  assumes "\<And>i s s'. body i s = Inr s' \<Longrightarrow> P s \<Longrightarrow> P s'"
  shows "for_each js body s = Inr s' \<Longrightarrow> P s \<Longrightarrow> P s'"
proof (induction js arbitrary: s)
  case Nil
  then show ?case by simp
next
  case (Cons j js)
  from Cons.prems(1) obtain s1 where s1: "body j s = Inr s1" and rest: "for_each js body s1 = Inr s'"
    by (auto simp: bindF_eq_Inr_iff)
  from assms [OF s1 Cons.prems(2)] have "P s1" .
  with Cons.IH [OF rest] show ?case .
qed

lemma for_all_invariant:
  assumes "\<And>i s s'. body i s = Inr s' \<Longrightarrow> P s \<Longrightarrow> P s'"
  shows "for_all n body s = Inr s' \<Longrightarrow> P s \<Longrightarrow> P s'"
  unfolding for_all_def using assms by (rule for_each_invariant)

lemma same_leaves_refl [simp]: "same_leaves a a"
  by (simp add: same_leaves_def)

lemma same_leaves_trans: "same_leaves a b \<Longrightarrow> same_leaves b c \<Longrightarrow> same_leaves a c"
  by (simp add: same_leaves_def)

lemma same_leaves_parents:
  "store (m_parents d) k v = Inr ps \<Longrightarrow> same_leaves d (d\<lparr>m_parents := ps\<rparr>)"
  by (simp add: same_leaves_def store_length)

lemma same_leaves_left:
  "store (m_parents d) k v = Inr ps \<Longrightarrow> store (m_left_children d) k' v' = Inr ls \<Longrightarrow>
   same_leaves d (d\<lparr>m_parents := ps, m_left_children := ls\<rparr>)"
  by (simp add: same_leaves_def store_length)

lemma same_leaves_right:
  "store (m_parents d) k v = Inr ps \<Longrightarrow> store (m_right_children d) k' v' = Inr rs \<Longrightarrow>
   same_leaves d (d\<lparr>m_parents := ps, m_right_children := rs\<rparr>)"
  by (simp add: same_leaves_def store_length)

lemma build_node_frame:
  assumes "build_node i data = Inr data'"
  shows "same_leaves data data'"
proof -
  from assms obtain j split d1 d2 where
    1: "(if min i j = split
         then bindF (store (m_parents data) (split + m_inner_size data) i)
                (\<lambda>ps. bindF (store (m_left_children data) i (split + m_inner_size data))
                   (\<lambda>ls. Inr (data\<lparr>m_parents := ps, m_left_children := ls\<rparr>)))
         else bindF (store (m_parents data) split i)
                (\<lambda>ps. bindF (store (m_left_children data) i split)
                   (\<lambda>ls. Inr (data\<lparr>m_parents := ps, m_left_children := ls\<rparr>)))) = Inr d1"
    and 2: "(if max i j = split + 1
         then bindF (store (m_parents d1) (split + m_inner_size data + 1) i)
                (\<lambda>ps. bindF (store (m_right_children d1) i (split + m_inner_size data + 1))
                   (\<lambda>rs. Inr (d1\<lparr>m_parents := ps, m_right_children := rs\<rparr>)))
         else bindF (store (m_parents d1) (split + 1) i)
                (\<lambda>ps. bindF (store (m_right_children d1) i (split + 1))
                   (\<lambda>rs. Inr (d1\<lparr>m_parents := ps, m_right_children := rs\<rparr>)))) = Inr d2"
    and 3: "(if i = 0 then bindF (store (m_parents d2) 0 (- 1)) (\<lambda>ps. Inr (d2\<lparr>m_parents := ps\<rparr>))
             else Inr d2) = Inr data'"
    unfolding build_node_def Let_def
    by (auto simp: bindF_eq_Inr_iff split: option.splits prod.splits)
  from 1 have a: "same_leaves data d1"
    by (auto simp: bindF_eq_Inr_iff same_leaves_left split: if_splits)
  from 2 have b: "same_leaves d1 d2"
    by (auto simp: bindF_eq_Inr_iff same_leaves_right split: if_splits)
  from 3 have c: "same_leaves d2 data'"
    by (auto simp: bindF_eq_Inr_iff same_leaves_parents split: if_splits)
  from a b c show ?thesis by (blast intro: same_leaves_trans)
qed

lemma build_tree_frame:
  assumes "build_tree data = Inr data'"
  shows "same_leaves data data'"
proof -
  have "\<And>i s s'. build_node i s = Inr s' \<Longrightarrow> same_leaves data s \<Longrightarrow> same_leaves data s'"
    by (blast intro: same_leaves_trans build_node_frame)
  from for_all_invariant [of build_node "same_leaves data", OF this] assms show ?thesis
    unfolding build_tree_def by simp
qed

lemma propagate_aabbs_frame:
  assumes "propagate_aabbs E data = Inr (data', st)"
  shows "data' = data\<lparr>m_inner_aabbs := inner_aabbs st\<rparr>"
  using assms unfolding propagate_aabbs_def Let_def
  by (auto simp: bindF_eq_Inr_iff split: if_splits)

lemma for_all_store_length:
  assumes "\<And>i xs ys. body i xs = Inr ys \<Longrightarrow> length ys = length xs"
    and "for_all n body xs = Inr ys"
  shows "length ys = length xs"
proof -
  have "\<And>i s s'. body i s = Inr s' \<Longrightarrow> length s = length xs \<Longrightarrow> length s' = length xs"
    using assms(1) by simp
  from for_all_invariant [of body "\<lambda>s. length s = length xs", OF this assms(2)]
  show ?thesis by simp
qed

lemma get_mcodes_length:
  assumes "get_mcodes E aabbs sz b mc = Inr codes"
  shows "length codes = length mc"
proof -
  from assms obtain inv where
    "for_all sz (\<lambda>i mcodes. bindF (load aabbs i)
        (\<lambda>aabb. store mcodes i (morton32_encode E (normalized_centroid E aabb (getMin b) inv))))
       mc = Inr codes"
    unfolding get_mcodes_def Let_def by (auto simp: bindF_eq_Inr_iff)
  then show ?thesis
    by (rule for_all_store_length [rotated]) (auto simp: bindF_eq_Inr_iff dest: store_length)
qed


lemma build_radix_tree_stages:
  assumes ok: "build_radix_tree E (int n) sf c = Inr c'" and len: "n \<le> length (boxes c)"
  defines "pre \<equiv> map (\<lambda>i. box_scale E sf (boxes c ! i)) [0..<n]"
  shows "\<exists>b codes rt rt' st. 0 < n
    \<and> reduce E pre (int n) = Inr b
    \<and> get_mcodes E pre (int n) b (map (junk_code E) [0..<n]) = Inr codes
    \<and> length codes = n
    \<and> build_tree ((allocate E (int n))\<lparr>
          m_mcodes := map (\<lambda>i. codes ! nat i) (sort_key (\<lambda>i. codes ! nat i) (map int [0..<n])),
          m_leafs := sort_key (\<lambda>i. codes ! nat i) (map int [0..<n]),
          m_leaf_aabbs := map (\<lambda>i. pre ! nat (sort_key (\<lambda>i. codes ! nat i) (map int [0..<n]) ! i)) [0..<n]\<rparr>) = Inr rt
    \<and> propagate_aabbs E rt = Inr (rt', st)
    \<and> c' = c\<lparr>bounds := b, radix_tree := rt'\<rparr>"
proof -
  from ok have n: "0 < n"
    by (auto simp: build_radix_tree_def split: if_splits)
  have t: "transform_boxes E (boxes c) (m_leaf_aabbs (allocate E (int n))) (int n) sf = Inr pre"
    using transform_boxes_eq [of n "boxes c" "m_leaf_aabbs (allocate E (int n))" E sf] len
    by (simp add: pre_def allocate_def)
  from ok n t obtain b where b: "reduce E pre (int n) = Inr b"
    and 1: "bindF (get_mcodes E pre (int n) b (map (junk_code E) [0..<n]))
           (\<lambda>codes. bindF (sort_mcodes E codes (int n) (map (junk_int E) [0..<n]))
             (\<lambda>(codes, leafs).
                bindF (reorder leafs pre (int n) (map (junk_box E) [0..<n]))
                 (\<lambda>aabbs. bindF (build_tree ((allocate E (int n))\<lparr>m_mcodes := codes,
                       m_leafs := leafs, m_leaf_aabbs := aabbs\<rparr>))
                   (\<lambda>rt. bindF (propagate_aabbs E rt)
                     (\<lambda>(rt, st). Inr (c\<lparr>bounds := b, radix_tree := rt\<rparr>)))))) = Inr c'"
    by (auto simp: build_radix_tree_def Let_def bindF_eq_Inr_iff allocate_def)
  from 1 obtain codes where codes: "get_mcodes E pre (int n) b (map (junk_code E) [0..<n]) = Inr codes"
    and 2: "bindF (sort_mcodes E codes (int n) (map (junk_int E) [0..<n]))
             (\<lambda>(codes, leafs).
                bindF (reorder leafs pre (int n) (map (junk_box E) [0..<n]))
                 (\<lambda>aabbs. bindF (build_tree ((allocate E (int n))\<lparr>m_mcodes := codes,
                       m_leafs := leafs, m_leaf_aabbs := aabbs\<rparr>))
                   (\<lambda>rt. bindF (propagate_aabbs E rt)
                     (\<lambda>(rt, st). Inr (c\<lparr>bounds := b, radix_tree := rt\<rparr>))))) = Inr c'"
    by (auto simp: bindF_eq_Inr_iff)
  have lc: "length codes = n"
    using get_mcodes_length [OF codes] by simp
  let ?key = "\<lambda>i. codes ! nat i"
  let ?leafs = "sort_key ?key (map int [0..<n])"
  have s: "sort_mcodes E codes (int n) (map (junk_int E) [0..<n]) = Inr (map ?key ?leafs, ?leafs)"
    by (rule sort_mcodes_eq) (simp_all add: lc)
  have idx: "0 \<le> ?leafs ! i \<and> ?leafs ! i < int (length pre)" if "i < n" for i
  proof -
    have "?leafs ! i \<in> set ?leafs" using that by (intro nth_mem) simp
    then show ?thesis by (auto simp: pre_def)
  qed
  have r: "reorder ?leafs pre (int n) (map (junk_box E) [0..<n])
      = Inr (map (\<lambda>i. pre ! nat (?leafs ! i)) [0..<n] @ drop n (map (junk_box E) [0..<n]))"
    by (rule reorder_eq) (use idx in simp_all)
  from 2 s r obtain rt rt' st where
    "build_tree ((allocate E (int n))\<lparr>m_mcodes := map ?key ?leafs, m_leafs := ?leafs,
         m_leaf_aabbs := map (\<lambda>i. pre ! nat (?leafs ! i)) [0..<n]\<rparr>) = Inr rt"
    "propagate_aabbs E rt = Inr (rt', st)" "c' = c\<lparr>bounds := b, radix_tree := rt'\<rparr>"
    by (auto simp: bindF_eq_Inr_iff)
  with n b codes lc show ?thesis by blast
qed


subsection \<open>Keys and the delta metric\<close>

lemma word_xor_eq_0_iff: "(x :: uint32) XOR y = 0 \<longleftrightarrow> x = y"
  by (metis bit.xor_left_self xor.right_neutral xor_self_eq)

lemma unat_lt_iff_drop_bit: "unat (w :: uint32) < 2 ^ e \<longleftrightarrow> drop_bit e w = 0"
proof -
  have "drop_bit e w = 0 \<longleftrightarrow> unat (drop_bit e w) = 0"
    by (simp add: unsigned_eq_0_iff)
  also have "\<dots> \<longleftrightarrow> unat w div 2 ^ e = 0"
    by (simp only: unat_drop_bit_eq drop_bit_nat_def)
  also have "\<dots> \<longleftrightarrow> unat w < 2 ^ e"
    by (simp add: div_eq_0_iff)
  finally show ?thesis by simp
qed

lemma xor_lt_iff:
  fixes x y :: uint32
  shows "unat (x XOR y) < 2 ^ e \<longleftrightarrow> unat x div 2 ^ e = unat y div 2 ^ e"
proof -
  have "unat (x XOR y) < 2 ^ e \<longleftrightarrow> drop_bit e x XOR drop_bit e y = 0"
    by (simp add: unat_lt_iff_drop_bit drop_bit_xor)
  also have "\<dots> \<longleftrightarrow> drop_bit e x = drop_bit e y"
    by (rule word_xor_eq_0_iff)
  also have "\<dots> \<longleftrightarrow> unat (drop_bit e x) = unat (drop_bit e y)"
    by (simp add: word_unat_eq_iff)
  finally show ?thesis
    by (simp only: unat_drop_bit_eq drop_bit_nat_def)
qed

lemma key_div_hi:
  assumes "k < 2 ^ 32" "32 \<le> e"
  shows "key mcodes k div 2 ^ e = unat (mcodes ! k) div 2 ^ (e - 32)"
proof -
  have "(2::nat) ^ e = 2 ^ 32 * 2 ^ (e - 32)"
    using assms(2) by (metis le_add_diff_inverse power_add)
  moreover have "key mcodes k div 2 ^ 32 = unat (mcodes ! k)"
    using assms(1) by (simp add: key_def)
  ultimately show ?thesis
    by (simp add: div_mult2_eq)
qed

lemma key_div_lo:
  assumes "e \<le> 32"
  shows "key mcodes k div 2 ^ e = unat (mcodes ! k) * 2 ^ (32 - e) + k div 2 ^ e"
proof -
  have "(2::nat) ^ 32 = 2 ^ (32 - e) * 2 ^ e"
    using assms by (simp flip: power_add)
  then have "key mcodes k = k + (unat (mcodes ! k) * 2 ^ (32 - e)) * 2 ^ e"
    by (simp add: key_def)
  then show ?thesis
    by (simp only: div_mult_self1 [of "2 ^ e" k "unat (mcodes ! k) * 2 ^ (32 - e)"])
      (simp add: div_mult_self1)
qed

lemma unat_word_of_int_small:
  "0 \<le> a \<Longrightarrow> a < 2 ^ 32 \<Longrightarrow> unat (word_of_int a :: uint32) = nat a"
  by (simp add: unsigned_of_int take_bit_int_eq_self)

lemma leadingZeros_nonzero_le: "w \<noteq> 0 \<Longrightarrow> leadingZeros w \<le> 31"
proof -
  assume "w \<noteq> 0"
  then have "0 < unat w" by (simp add: unat_gt_0)
  then have "floorlog 2 (unat w) \<noteq> 0"
    by (simp add: floorlog_eq_zero_iff)
  then have "1 \<le> floorlog 2 (unat w)"
    by simp
  then show ?thesis by (simp add: leadingZeros_def)
qed

lemma delta_ge_iff:
  assumes a: "0 \<le> a" "a \<le> inner_size" and b: "0 \<le> b" "b \<le> inner_size"
    and small: "inner_size < 2 ^ 32" and m: "m \<le> 64"
  shows "int m \<le> delta a b inner_size mcodes \<longleftrightarrow> agree mcodes (nat a) (nat b) m"
proof -
  let ?ca = "mcodes ! nat a" and ?cb = "mcodes ! nat b"
  let ?wa = "word_of_int a :: uint32" and ?wb = "word_of_int b :: uint32"
  have A: "nat a < 2 ^ 32" and B: "nat b < 2 ^ 32"
    using a b small by (simp_all add: nat_less_iff)
  have ua: "unat ?wa = nat a" and ub: "unat ?wb = nat b"
    using a b small by (simp_all add: unat_word_of_int_small)
  show ?thesis
  proof (cases "?ca = ?cb")
    case False
    then have x: "?ca XOR ?cb \<noteq> 0" by (simp add: word_xor_eq_0_iff)
    then have d: "delta a b inner_size mcodes = leadingZeros (?ca XOR ?cb)"
      using b by (simp add: delta_in_range)
    show ?thesis
    proof (cases "m \<le> 32")
      case True
      then have "int m \<le> leadingZeros (?ca XOR ?cb) \<longleftrightarrow> unat (?ca XOR ?cb) < 2 ^ (32 - m)"
        by (rule leadingZeros_ge_iff)
      also have "\<dots> \<longleftrightarrow> unat ?ca div 2 ^ (32 - m) = unat ?cb div 2 ^ (32 - m)"
        by (rule xor_lt_iff)
      also have "\<dots> \<longleftrightarrow> agree mcodes (nat a) (nat b) m"
        using True A B by (simp add: agree_def key_div_hi)
      finally show ?thesis by (simp add: d)
    next
      case False
      then have e: "64 - m \<le> 32" and m32: "32 < m" by simp_all
      have "\<not> int m \<le> delta a b inner_size mcodes"
        using leadingZeros_nonzero_le [OF x] m32 by (simp add: d)
      moreover have "\<not> agree mcodes (nat a) (nat b) m"
      proof
        assume "agree mcodes (nat a) (nat b) m"
        then have "key mcodes (nat a) div 2 ^ (64 - m) div 2 ^ (32 - (64 - m))
          = key mcodes (nat b) div 2 ^ (64 - m) div 2 ^ (32 - (64 - m))"
          by (simp add: agree_def)
        moreover have "(2::nat) ^ (64 - m) * 2 ^ (32 - (64 - m)) = 2 ^ 32"
          using e by (simp flip: power_add)
        ultimately have "key mcodes (nat a) div 2 ^ 32 = key mcodes (nat b) div 2 ^ 32"
          by (simp flip: div_mult2_eq)
        then have "unat ?ca = unat ?cb"
          using A B by (simp add: key_def)
        then show False using \<open>?ca \<noteq> ?cb\<close> by (simp add: word_unat_eq_iff)
      qed
      ultimately show ?thesis by simp
    qed
  next
    case True
    then have d: "delta a b inner_size mcodes = leadingZeros (?wa XOR ?wb) + 32"
      using b by (simp add: delta_in_range)
    show ?thesis
    proof (cases "m \<le> 32")
      case le: True
      have "int m \<le> delta a b inner_size mcodes"
        using le leadingZeros_nonneg [of "?wa XOR ?wb"] by (simp add: d)
      moreover have "agree mcodes (nat a) (nat b) m"
        using le A B True by (simp add: agree_def key_div_hi)
      ultimately show ?thesis by simp
    next
      case False
      then have e: "64 - m \<le> 32" and m32: "32 < m" by simp_all
      have m': "m - 32 \<le> 32" using m by simp
      have "int m \<le> delta a b inner_size mcodes \<longleftrightarrow> int (m - 32) \<le> leadingZeros (?wa XOR ?wb)"
        using m32 by (simp add: d) linarith
      also have "\<dots> \<longleftrightarrow> unat (?wa XOR ?wb) < 2 ^ (32 - (m - 32))"
        using m' by (rule leadingZeros_ge_iff)
      also have "32 - (m - 32) = 64 - m" using m32 m by simp
      also have "unat (?wa XOR ?wb) < 2 ^ (64 - m) \<longleftrightarrow> nat a div 2 ^ (64 - m) = nat b div 2 ^ (64 - m)"
        by (simp add: xor_lt_iff ua ub)
      also have "\<dots> \<longleftrightarrow> agree mcodes (nat a) (nat b) m"
        using e True by (simp add: agree_def key_div_lo)
      finally show ?thesis .
    qed
  qed
qed

lemma delta_le_64:
  "delta a b inner_size mcodes \<le> 64"
proof (cases "b < 0 \<or> b > inner_size")
  case True
  then show ?thesis by (simp add: delta_out_of_range)
next
  case False
  then show ?thesis
    using leadingZeros_le [of "mcodes ! nat a XOR mcodes ! nat b"]
      leadingZeros_le [of "(word_of_int a :: uint32) XOR word_of_int b"]
    by (simp add: delta_in_range)
qed

lemma delta_le_I:
  assumes x: "0 \<le> x" "x \<le> inner_size" and y: "0 \<le> y" "y \<le> inner_size"
    and u: "0 \<le> u" "u \<le> inner_size" and v: "0 \<le> v" "v \<le> inner_size"
    and small: "inner_size < 2 ^ 32"
    and imp: "\<And>m. m \<le> 64 \<Longrightarrow> agree mcodes (nat x) (nat y) m \<Longrightarrow> agree mcodes (nat u) (nat v) m"
  shows "delta x y inner_size mcodes \<le> delta u v inner_size mcodes"
proof -
  let ?m = "nat (delta x y inner_size mcodes)"
  have 0: "0 \<le> delta x y inner_size mcodes"
    using y by (rule delta_in_range_nonneg)
  then have m: "?m \<le> 64" using delta_le_64 [of x y inner_size mcodes] by simp
  have "int ?m \<le> delta x y inner_size mcodes" using 0 by simp
  then have "agree mcodes (nat x) (nat y) ?m"
    using delta_ge_iff [OF x y small m] by simp
  then have "agree mcodes (nat u) (nat v) ?m" using m by (rule imp [rotated])
  then have "int ?m \<le> delta u v inner_size mcodes"
    using delta_ge_iff [OF u v small m] by simp
  then show ?thesis using 0 by simp
qed

lemma agree_sym: "agree mcodes a b m \<longleftrightarrow> agree mcodes b a m"
  by (auto simp: agree_def)

lemma delta_sym:
  assumes "0 \<le> a" "a \<le> inner_size" "0 \<le> b" "b \<le> inner_size" "inner_size < 2 ^ 32"
  shows "delta a b inner_size mcodes = delta b a inner_size mcodes"
proof (rule antisym)
  show "delta a b inner_size mcodes \<le> delta b a inner_size mcodes"
    by (rule delta_le_I) (use assms in \<open>simp_all add: agree_sym\<close>)
  show "delta b a inner_size mcodes \<le> delta a b inner_size mcodes"
    by (rule delta_le_I) (use assms in \<open>simp_all add: agree_sym\<close>)
qed

lemma key_mono:
  assumes "sorted mcodes" "a \<le> b" "b < length mcodes"
  shows "key mcodes a \<le> key mcodes b"
proof -
  have "mcodes ! a \<le> mcodes ! b"
    using assms by (simp add: sorted_nth_mono)
  then have "unat (mcodes ! a) \<le> unat (mcodes ! b)"
    by (simp add: word_le_nat_alt)
  then show ?thesis
    using assms(2) by (simp add: key_def add_mono)
qed

lemma key_strict_mono:
  assumes "sorted mcodes" "a < b" "b < length mcodes"
  shows "key mcodes a < key mcodes b"
proof -
  have "mcodes ! a \<le> mcodes ! b"
    using assms by (simp add: sorted_nth_mono)
  then have "unat (mcodes ! a) \<le> unat (mcodes ! b)"
    by (simp add: word_le_nat_alt)
  then have "unat (mcodes ! a) * 2 ^ 32 \<le> unat (mcodes ! b) * 2 ^ 32"
    by simp
  then show ?thesis
    using assms(2) by (simp add: key_def add_le_less_mono)
qed

lemma div_between:
  fixes a b c :: nat
  assumes "a \<le> b" "b \<le> c" "a div m = c div m"
  shows "b div m = a div m"
  by (metis assms(1,2,3) div_le_mono order_antisym_conv)

lemma agree_between:
  assumes "sorted mcodes" "a \<le> b" "b \<le> c" "c < length mcodes" "agree mcodes a c m"
  shows "agree mcodes a b m" "agree mcodes b c m"
proof -
  have ab: "key mcodes a \<le> key mcodes b" and bc: "key mcodes b \<le> key mcodes c"
    using assms by (simp_all add: key_mono)
  from div_between [OF ab bc] assms(5) have "key mcodes b div 2 ^ (64 - m) = key mcodes a div 2 ^ (64 - m)"
    by (simp add: agree_def)
  with assms(5) show "agree mcodes a b m" "agree mcodes b c m"
    by (simp_all add: agree_def)
qed

lemma agree_trans: "agree mcodes a b m \<Longrightarrow> agree mcodes b c m \<Longrightarrow> agree mcodes a c m"
  by (simp add: agree_def)

lemma div_half_cases:
  fixes a :: nat
  shows "a div 2 ^ e = 2 * (a div 2 ^ Suc e) \<or> a div 2 ^ e = 2 * (a div 2 ^ Suc e) + 1"
proof -
  have "(2::nat) ^ Suc e = 2 ^ e * 2" by simp
  then have "a div 2 ^ Suc e = a div 2 ^ e div 2"
    by (simp only: div_mult2_eq)
  moreover have "q = 2 * (q div 2) \<or> q = 2 * (q div 2) + 1" for q :: nat
    by presburger
  ultimately show ?thesis by simp
qed


lemma delta_lt_64:
  assumes "0 \<le> a" "a \<le> inner_size" "0 \<le> b" "b \<le> inner_size" "inner_size < 2 ^ 32" "a \<noteq> b"
  shows "delta a b inner_size mcodes < 64"
proof -
  have "key mcodes (nat a) \<noteq> key mcodes (nat b)"
  proof
    assume "key mcodes (nat a) = key mcodes (nat b)"
    then have "key mcodes (nat a) mod 2 ^ 32 = key mcodes (nat b) mod 2 ^ 32" by simp
    then have "nat a = nat b"
      using assms by (simp add: key_def nat_less_iff)
    then show False using assms by simp
  qed
  then have "\<not> agree mcodes (nat a) (nat b) 64"
    by (simp add: agree_def)
  then have "\<not> int 64 \<le> delta a b inner_size mcodes"
    using delta_ge_iff [OF assms(1-5), of 64 mcodes] by simp
  then show ?thesis by simp
qed

lemma delta_neighbours_differ:
  assumes srt: "sorted mcodes" and len: "int (length mcodes) = inner_size + 1"
    and small: "inner_size < 2 ^ 32"
    and a: "0 \<le> a" and ab: "a < b" and bc: "b < c" and c: "c \<le> inner_size"
  shows "delta b a inner_size mcodes \<noteq> delta b c inner_size mcodes"
proof
  assume eq: "delta b a inner_size mcodes = delta b c inner_size mcodes"
  let ?m = "nat (delta b a inner_size mcodes)"
  have ra: "0 \<le> a" "a \<le> inner_size" and rb: "0 \<le> b" "b \<le> inner_size"
    and rc: "0 \<le> c" "c \<le> inner_size"
    using a ab bc c by simp_all
  have 0: "0 \<le> delta b a inner_size mcodes" using ra by (rule delta_in_range_nonneg)
  have lt: "delta b a inner_size mcodes < 64"
    using delta_lt_64 [OF rb ra small] ab by simp
  then have m: "?m \<le> 64" "Suc ?m \<le> 64" by simp_all
  have A1: "nat a < nat b" using a ab by simp
  have A2: "nat b < nat c" using a ab bc by simp
  have A3: "nat c < length mcodes" using rc len by (simp add: nat_less_iff)
  have A4: "nat b < length mcodes" using A2 A3 by (rule less_trans)
  let ?ka = "key mcodes (nat a)" and ?kb = "key mcodes (nat b)" and ?kc = "key mcodes (nat c)"
  have k: "?ka < ?kb" "?kb < ?kc"
    using key_strict_mono [OF srt A1 A4] key_strict_mono [OF srt A2 A3] by simp_all
  have e: "64 - ?m = Suc (64 - Suc ?m)" using m by simp
  let ?e = "64 - Suc ?m"
  have "agree mcodes (nat b) (nat a) ?m" "agree mcodes (nat b) (nat c) ?m"
    using delta_ge_iff [OF rb ra small m(1), of mcodes]
      delta_ge_iff [OF rb rc small m(1), of mcodes] 0 eq by simp_all
  then have hi: "?kb div 2 ^ Suc ?e = ?ka div 2 ^ Suc ?e" "?kb div 2 ^ Suc ?e = ?kc div 2 ^ Suc ?e"
    unfolding agree_def e by simp_all
  have "\<not> agree mcodes (nat b) (nat a) (Suc ?m)" "\<not> agree mcodes (nat b) (nat c) (Suc ?m)"
    using delta_ge_iff [OF rb ra small m(2), of mcodes]
      delta_ge_iff [OF rb rc small m(2), of mcodes] 0 eq by simp_all
  then have lo: "?kb div 2 ^ ?e \<noteq> ?ka div 2 ^ ?e" "?kb div 2 ^ ?e \<noteq> ?kc div 2 ^ ?e"
    by (simp_all add: agree_def)
  have mono: "?ka div 2 ^ ?e \<le> ?kb div 2 ^ ?e" "?kb div 2 ^ ?e \<le> ?kc div 2 ^ ?e"
    using k by (simp_all add: div_le_mono)
  from div_half_cases [of ?ka ?e] div_half_cases [of ?kb ?e] div_half_cases [of ?kc ?e]
    hi lo mono show False
    by linarith
qed

text \<open>The direction and the first probe.\<close>

lemma direction_strict:
  assumes srt: "sorted mcodes" and len: "int (length mcodes) = inner_size + 1"
    and small: "inner_size < 2 ^ 32" and i: "0 \<le> i" "i < inner_size"
  defines "d \<equiv> (if 0 > delta i (i + 1) inner_size mcodes - delta i (i - 1) inner_size mcodes
                  then - 1 else 1)"
  shows "delta i (i + d) inner_size mcodes > delta i (i - d) inner_size mcodes"
proof (cases "i = 0")
  case True
  then have "delta i (i - 1) inner_size mcodes = - 1"
    by (simp add: delta_out_of_range)
  moreover have "0 \<le> delta i (i + 1) inner_size mcodes"
    using i by (intro delta_in_range_nonneg) simp_all
  ultimately show ?thesis by (simp add: d_def)
next
  case False
  then have "delta i (i - 1) inner_size mcodes \<noteq> delta i (i + 1) inner_size mcodes"
    using delta_neighbours_differ [OF srt len small, of "i - 1" i "i + 1"] i by simp
  then show ?thesis by (auto simp: d_def)
qed

lemma find_lmax_terminates:
  assumes d: "d = 1 \<or> d = - 1" and i: "0 \<le> i" "i \<le> inner_size" and md: "- 1 \<le> min_delta"
    and small: "inner_size < 1073741824"
  shows "1 \<le> lmax \<Longrightarrow> lmax < 2147483648 \<Longrightarrow>
     - 2147483648 \<le> i + lmax * d \<Longrightarrow> i + lmax * d < 2147483648 \<Longrightarrow>
     \<exists>r. find_lmax i d min_delta inner_size mcodes lmax = Some r
     \<and> lmax \<le> r
     \<and> \<not> delta i (i + r * d) inner_size mcodes > min_delta
     \<and> (r = lmax \<or> delta i (i + (r div 2) * d) inner_size mcodes > min_delta \<and> 2 * lmax \<le> r)"
proof (induction "nat (inner_size + 1 - lmax)" arbitrary: lmax rule: less_induct)
  case less
  have "wrap32 (lmax * d) = lmax * d"
    using d less.prems(1,2) by (auto simp: wrap32_id)
  then have w: "wrap32 (i + wrap32 (lmax * d)) = i + lmax * d"
    using less.prems(3,4) by (simp add: wrap32_id)
  show ?case
  proof (cases "delta i (i + lmax * d) inner_size mcodes > min_delta")
    case False
    then have "find_lmax i d min_delta inner_size mcodes lmax = Some lmax"
      by (subst find_lmax.simps) (simp add: w)
    with False show ?thesis by simp
  next
    case True
    have inr: "0 \<le> i + lmax * d \<and> i + lmax * d \<le> inner_size"
    proof (rule ccontr)
      assume "\<not> (0 \<le> i + lmax * d \<and> i + lmax * d \<le> inner_size)"
      then have "i + lmax * d < 0 \<or> i + lmax * d > inner_size" by linarith
      then have "delta i (i + lmax * d) inner_size mcodes = - 1"
        by (rule delta_out_of_range)
      with True md show False by simp
    qed
    have le: "lmax \<le> inner_size"
      using d inr i by auto
    have w2: "wrap32 (lmax * 2) = lmax * 2"
      using le small less.prems(1) by (simp add: wrap32_id)
    have "nat (inner_size + 1 - lmax * 2) < nat (inner_size + 1 - lmax)"
      using le less.prems by simp
    moreover have "1 \<le> lmax * 2" using less.prems by simp
    moreover have "lmax * 2 < 2147483648" using le small by simp
    moreover have "- 2147483648 \<le> i + lmax * 2 * d \<and> i + lmax * 2 * d < 2147483648"
      using d inr le i small by auto
    ultimately obtain r where r: "find_lmax i d min_delta inner_size mcodes (lmax * 2) = Some r"
      "lmax * 2 \<le> r" "\<not> delta i (i + r * d) inner_size mcodes > min_delta"
      "r = lmax * 2 \<or> delta i (i + (r div 2) * d) inner_size mcodes > min_delta \<and> 2 * (lmax * 2) \<le> r"
      using less.hyps [of "lmax * 2"] by blast
    have "find_lmax i d min_delta inner_size mcodes lmax = Some r"
      using True r(1) by (subst find_lmax.simps) (simp add: w w2)
    moreover have "delta i (i + (r div 2) * d) inner_size mcodes > min_delta"
      using r(4) True by auto
    ultimately show ?thesis
      using r(2,3) less.prems by (intro exI [of _ r]) simp
  qed
qed

lemma find_l_ge: "l \<le> find_l i d min_delta inner_size mcodes t l"
proof (induction i d min_delta inner_size mcodes t l rule: find_l.induct)
  case (1 i d min_delta inner_size mcodes t l)
  show ?case
  proof (cases "t \<ge> 1")
    case True
    let ?l = "if delta i (i + (l + t) * d) inner_size mcodes > min_delta then l + t else l"
    have "?l \<le> find_l i d min_delta inner_size mcodes (t div 2) ?l"
      using True by (rule "1.IH")
    moreover have "l \<le> ?l" using True by simp
    moreover have "find_l i d min_delta inner_size mcodes t l
        = find_l i d min_delta inner_size mcodes (t div 2) ?l"
      using True by (subst find_l.simps) simp
    ultimately show ?thesis by simp
  next
    case False
    then show ?thesis by (subst find_l.simps) simp
  qed
qed

lemma find_l_first:
  assumes "1 \<le> t" "delta i (i + t * d) inner_size mcodes > min_delta"
  shows "t \<le> find_l i d min_delta inner_size mcodes t 0"
proof -
  have "find_l i d min_delta inner_size mcodes t 0 = find_l i d min_delta inner_size mcodes (t div 2) t"
    using assms by (subst find_l.simps) simp
  then show ?thesis using find_l_ge [of t i d min_delta inner_size mcodes "t div 2"] by simp
qed

lemma float32_pos:
  assumes "1 \<le> l"
  shows "1 \<le> float32 l"
proof -
  define m where "m = nat \<bar>l\<bar>"
  define e where "e = floorlog 2 m - 24"
  define q where "q = m div 2 ^ e"
  have m: "0 < m" using assms by (simp add: m_def)
  have "2 ^ (floorlog 2 m - 1) \<le> m"
    using floorlog_bounds [of m 2] m by simp
  moreover have "(2::nat) ^ e \<le> 2 ^ (floorlog 2 m - 1)"
    by (rule power_increasing) (simp_all add: e_def)
  ultimately have "2 ^ e \<le> m" by (rule order_trans [rotated])
  then have q: "1 \<le> q"
    by (simp add: q_def Suc_le_eq div_greater_zero_iff)
  define q' where "q' = (if 2 ^ e < 2 * (m mod 2 ^ e) \<or> (2 * (m mod 2 ^ e) = 2 ^ e \<and> odd q)
                          then q + 1 else q)"
  have "1 \<le> q'" using q by (simp add: q'_def)
  then have "(1::int) \<le> int q'" by simp
  moreover have "(1::int) \<le> 2 ^ e" by simp
  ultimately have "(1::int) * 1 \<le> int q' * 2 ^ e"
    by (intro mult_mono) simp_all
  moreover have "float32 l = int (q' * 2 ^ e)"
    using assms by (simp add: float32_def Let_def m_def e_def q_def q'_def)
  ultimately show ?thesis by simp
qed

lemma find_split_terminates:
  assumes f: "1 \<le> float32 l"
  shows "\<exists>r. find_split i d delta_node inner_size mcodes l (2 ^ k) s = Some r"
proof (induction "nat (float32 l) - k" arbitrary: k s rule: less_induct)
  case less
  let ?t = "\<lceil>real_of_int (float32 l) / 2 ^ k\<rceil>"
  let ?s = "if delta i (i + (s + ?t) * d) inner_size mcodes > delta_node then s + ?t else s"
  show ?case
  proof (cases "?t = 1")
    case True
    then have "find_split i d delta_node inner_size mcodes l (2 ^ k) s = Some ?s"
      by (subst find_split.simps) (simp add: Let_def)
    then show ?thesis by blast
  next
    case False
    have "k < nat (float32 l)"
    proof (rule ccontr)
      assume "\<not> k < nat (float32 l)"
      then have "float32 l \<le> int k" using f by simp
      also have "int k < 2 ^ k" by simp
      finally have "real_of_int (float32 l) \<le> 2 ^ k"
        by (metis less_imp_le of_int_le_iff of_int_numeral of_int_power)
      moreover have "0 < real_of_int (float32 l)" using f by simp
      ultimately have "?t = 1"
        by (intro ceiling_unique) simp_all
      with False show False by simp
    qed
    then have "nat (float32 l) - Suc k < nat (float32 l) - k" by simp
    from less.hyps [OF this] obtain r where
      "find_split i d delta_node inner_size mcodes l (2 ^ Suc k) ?s = Some r"
      by blast
    then have "find_split i d delta_node inner_size mcodes l (2 ^ k) s = Some r"
      using False by (subst find_split.simps) (simp add: Let_def mult.commute)
    then show ?thesis by blast
  qed
qed

subsection \<open>C4: the loops of build_tree terminate\<close>

lemma find_split_zero_aux:
  assumes "find_split i d delta_node inner_size mcodes l div_factor s = Some y"
  shows "l \<noteq> 0"
proof (rule find_split.raw_induct
    [where P = "\<lambda>i d delta_node inner_size mcodes l div_factor s y. l \<noteq> 0", OF _ assms])
  fix f :: "int \<Rightarrow> int \<Rightarrow> int \<Rightarrow> int \<Rightarrow> uint32 list \<Rightarrow> int \<Rightarrow> real \<Rightarrow> int \<Rightarrow> int option"
  fix i d delta_node inner_size :: int and mcodes :: "uint32 list" and l :: int
    and div_factor :: real and s y :: int
  assume ih: "\<And>i d delta_node inner_size mcodes l div_factor s y.
      f i d delta_node inner_size mcodes l div_factor s = Some y \<Longrightarrow> l \<noteq> 0"
  assume step: "(let t = \<lceil>real_of_int (float32 l) / div_factor\<rceil>;
          s = if delta_node < delta i (i + (s + t) * d) inner_size mcodes then s + t else s
      in if t = 1 then Some s
         else f i d delta_node inner_size mcodes l (div_factor * 2) s) = Some y"
  show "l \<noteq> 0"
  proof
    assume l: "l = 0"
    have "float32 0 = 0" by (simp add: float32_def)
    with step l
    have "\<exists>s'. f i d delta_node inner_size mcodes 0 (div_factor * 2) s' = Some y"
      by (simp add: Let_def) blast
    then obtain s' where "f i d delta_node inner_size mcodes 0 (div_factor * 2) s' = Some y" ..
    from ih [OF this] show False by simp
  qed
qed

lemma find_split_zero: "find_split i d delta_node inner_size mcodes 0 div_factor s = None"
  using find_split_zero_aux [of i d delta_node inner_size mcodes 0 div_factor s]
  by (cases "find_split i d delta_node inner_size mcodes 0 div_factor s") auto

lemma delta_huge:
  "0 \<le> a \<Longrightarrow> a \<le> 1073741824 \<Longrightarrow> 0 \<le> b \<Longrightarrow> b \<le> 1073741824 \<Longrightarrow>
   delta a b 1073741824 huge_codes = leadingZeros ((word_of_int a :: uint32) XOR word_of_int b) + 32"
  by (simp add: delta_def Let_def huge_codes_def)

lemma huge_probe:
  "0 \<le> b \<Longrightarrow> b \<le> 1073741824 \<Longrightarrow> - 1 < delta 0 b 1073741824 huge_codes"
  using delta_in_range_nonneg [of b 1073741824 0 huge_codes] by simp

lemma huge_lmax: "find_lmax 0 1 (- 1) 1073741824 huge_codes 2 = Some (- 2147483648)"
  by (simp add: find_lmax_step find_lmax_stop wrap32_def huge_probe delta_out_of_range)

lemma huge_l: "find_l 0 1 (- 1) 1073741824 huge_codes (- 1073741824) 0 = 0"
  by (simp add: find_l_stop)

lemma huge_split: "node_split 0 1073741824 huge_codes = None"
  by (simp add: node_split_def delta_huge delta_out_of_range leadingZeros_def huge_lmax huge_l
      find_split_zero)

text \<open>
  C4. For a sorted code array of \<open>n\<close> entries, \<open>2 \<le> n \<le> 2 ^ 30\<close> (equal codes allowed), and
  an internal node \<open>i\<close> in \<open>[0, n - 1)\<close>: the first probe in the chosen direction is
  strictly better than the probe in the other direction, the doubling loop returns, the
  range length \<open>l\<close> found by the binary search is at least 1, the split search returns,
  and so the iteration arrives at its split position.
\<close>

theorem build_tree_loops_terminate:
  assumes "sorted mcodes" and "2 \<le> length mcodes" and "length mcodes \<le> 2 ^ 30"
    and "inner_size = int (length mcodes) - 1" and "0 \<le> i" and "i < inner_size"
  shows "\<exists>lmax l s.
      (let d = (if 0 > delta i (i + 1) inner_size mcodes - delta i (i - 1) inner_size mcodes
                then - 1 else 1);
           min_delta = delta i (i - d) inner_size mcodes
       in delta i (i + d) inner_size mcodes > min_delta
        \<and> find_lmax i d min_delta inner_size mcodes 2 = Some lmax
        \<and> l = find_l i d min_delta inner_size mcodes (lmax div 2) 0
        \<and> 1 \<le> l
        \<and> find_split i d (delta i (i + l * d) inner_size mcodes) inner_size mcodes l 2 0 = Some s
        \<and> node_split i inner_size mcodes = Some (i + l * d, i + s * d + min d 0))"
proof -
  define d where "d = (if 0 > delta i (i + 1) inner_size mcodes - delta i (i - 1) inner_size mcodes
                then - 1 else (1::int))"
  define min_delta where "min_delta = delta i (i - d) inner_size mcodes"
  have len: "int (length mcodes) = inner_size + 1" using assms(4) by simp
  have small30: "inner_size < 1073741824" using assms(3,4) by simp
  then have small: "inner_size < 2 ^ 32" by simp
  have dd: "d = 1 \<or> d = - 1" by (simp add: d_def)
  have strict: "delta i (i + d) inner_size mcodes > min_delta"
    unfolding min_delta_def d_def
    by (rule direction_strict [OF assms(1) len small assms(5,6)])
  have md: "- 1 \<le> min_delta" unfolding min_delta_def by (rule delta_ge_minus_one)
  have "i \<le> inner_size" "(1::int) \<le> 2" "(2::int) < 2147483648"
    "- 2147483648 \<le> i + 2 * d" "i + 2 * d < 2147483648"
    using dd assms(5,6) small30 by auto
  from find_lmax_terminates [where lmax = 2 and mcodes = mcodes, OF dd assms(5) this(1) md small30 this(2-5)]
  obtain lmax where lmax: "find_lmax i d min_delta inner_size mcodes 2 = Some lmax"
    and "2 \<le> lmax"
    and alt: "lmax = 2 \<or> delta i (i + (lmax div 2) * d) inner_size mcodes > min_delta \<and> 2 * 2 \<le> lmax"
    by auto
  define l where "l = find_l i d min_delta inner_size mcodes (lmax div 2) 0"
  have "1 \<le> lmax div 2 \<and> delta i (i + (lmax div 2) * d) inner_size mcodes > min_delta"
    using alt strict by auto
  then have "lmax div 2 \<le> l" unfolding l_def by (intro find_l_first) simp_all
  with \<open>1 \<le> lmax div 2 \<and> _\<close> have l1: "1 \<le> l" by simp
  from find_split_terminates [OF float32_pos [OF l1], of i d "delta i (i + l * d) inner_size mcodes"
      inner_size mcodes 1 0]
  obtain s where s: "find_split i d (delta i (i + l * d) inner_size mcodes) inner_size mcodes l 2 0 = Some s"
    by auto
  have "node_split i inner_size mcodes = Some (i + l * d, i + s * d + min d 0)"
    unfolding node_split_def Let_def d_def [symmetric] min_delta_def [symmetric]
    using lmax s [unfolded l_def] by (simp add: l_def)
  with strict lmax l1 s show ?thesis
    unfolding Let_def d_def [symmetric] min_delta_def [symmetric] l_def
    by blast
qed

theorem build_tree_loops_terminate_witness:
  "sorted [805306368, 2952790016, 4026531840 :: uint32]
   \<and> 2 \<le> length [805306368, 2952790016, 4026531840 :: uint32]
   \<and> length [805306368, 2952790016, 4026531840 :: uint32] \<le> 2 ^ 30
   \<and> (2::int) = int (length [805306368, 2952790016, 4026531840 :: uint32]) - 1
   \<and> (\<exists>lmax l s.
      (let d = (if 0 > delta 1 (1 + 1) 2 [805306368, 2952790016, 4026531840]
                      - delta 1 (1 - 1) 2 [805306368, 2952790016, 4026531840]
                then - 1 else 1);
           min_delta = delta 1 (1 - d) 2 [805306368, 2952790016, 4026531840]
       in delta 1 (1 + d) 2 [805306368, 2952790016, 4026531840] > min_delta
        \<and> find_lmax 1 d min_delta 2 [805306368, 2952790016, 4026531840] 2 = Some lmax
        \<and> l = find_l 1 d min_delta 2 [805306368, 2952790016, 4026531840] (lmax div 2) 0
        \<and> 1 \<le> l
        \<and> find_split 1 d (delta 1 (1 + l * d) 2 [805306368, 2952790016, 4026531840]) 2
             [805306368, 2952790016, 4026531840] l 2 0 = Some s
        \<and> node_split 1 2 [805306368, 2952790016, 4026531840] = Some (1 + l * d, 1 + s * d + min d 0)))"
proof -
  have h1: "sorted [805306368, 2952790016, 4026531840 :: uint32]" by simp
  have h2: "2 \<le> length [805306368, 2952790016, 4026531840 :: uint32]" by simp
  have h3: "length [805306368, 2952790016, 4026531840 :: uint32] \<le> 2 ^ 30" by simp
  have h4: "(2::int) = int (length [805306368, 2952790016, 4026531840 :: uint32]) - 1" by simp
  have h5: "(0::int) \<le> 1" and h6: "(1::int) < 2" by simp_all
  from build_tree_loops_terminate [OF h1 h2 h3 h4 h5 h6] h1 h2 h3 h4 show ?thesis
    by blast
qed

text \<open>
  C4, beyond \<open>2 ^ 30\<close> entries. On the sorted array of \<open>2 ^ 30 + 1\<close> equal codes, node 0
  searches to the right with \<open>min_delta = - 1\<close>. Every probe up to position \<open>2 ^ 30\<close> is
  inside the array, so the doubling loop takes \<open>lmax\<close> to \<open>2 ^ 30\<close> and doubles it once
  more: the \<^verbatim>\<open>int32\<close> wraps to \<open>- 2 ^ 31\<close>, the probe at \<open>- 2 ^ 31\<close> is outside, and the loop
  ends there. The binary search starts from \<open>t = - 2 ^ 30\<close> and runs no iteration, so
  \<open>l = 0\<close>; the split search then computes \<open>t = ceil(0 / div_factor) = 0\<close> in every round
  and never meets \<open>t = 1\<close>.
\<close>

theorem build_tree_loops_overflow:
  "sorted huge_codes \<and> length huge_codes = 1073741825
   \<and> find_lmax 0 1 (- 1) 1073741824 huge_codes 2 = Some (- 2147483648)
   \<and> find_l 0 1 (- 1) 1073741824 huge_codes (- 2147483648 div 2) 0 = 0
   \<and> find_split 0 1 (delta 0 0 1073741824 huge_codes) 1073741824 huge_codes 0 2 0 = None
   \<and> node_split 0 1073741824 huge_codes = None"
proof -
  have "sorted huge_codes" "length huge_codes = 1073741825"
    by (simp_all add: huge_codes_def sorted_replicate)
  then show ?thesis
    by (simp add: find_split_zero huge_lmax huge_l huge_split)
qed

subsection \<open>C1: the tree of build_tree\<close>

lemma big_nth_lo: "0 \<le> k \<Longrightarrow> k \<le> 16777216 \<Longrightarrow> big_codes ! nat k = 0"
  by (simp add: big_codes_def nth_append)

lemma big_nth_hi: "big_codes ! nat 16777217 = 2147483648"
  by (simp add: big_codes_def nth_append)

lemma delta_big_lo:
  "0 \<le> a \<Longrightarrow> a \<le> 16777216 \<Longrightarrow> 0 \<le> b \<Longrightarrow> b \<le> 16777216 \<Longrightarrow>
   delta a b 16777217 big_codes = leadingZeros ((word_of_int a :: uint32) XOR word_of_int b) + 32"
  by (simp add: delta_def Let_def big_nth_lo)

lemma delta_big_hi:
  "0 \<le> a \<Longrightarrow> a \<le> 16777216 \<Longrightarrow> delta a 16777217 16777217 big_codes = 0"
  using big_nth_hi by (simp add: delta_def Let_def big_nth_lo leadingZeros_def)

lemma delta_big_out:
  "b < 0 \<or> b > 16777217 \<Longrightarrow> delta a b 16777217 big_codes = - 1"
  by (simp add: delta_def Let_def)

lemmas big_eval = delta_big_lo delta_big_hi delta_big_out leadingZeros_def loop_eval

lemma float32_big: "float32 16777217 = 16777216"
  by (simp add: float32_def)

lemma float32_exact: "float32 16777216 = 16777216"
  by (simp add: float32_def)

lemma big_root_lmax: "find_lmax 0 1 (- 1) 16777217 big_codes 2 = Some 33554432"
  by (simp add: big_eval)

lemma big_root_l: "find_l 0 1 (- 1) 16777217 big_codes 16777216 0 = 16777217"
  by (simp add: big_eval)

lemma big_root_split: "find_split 0 1 0 16777217 big_codes 16777217 2 0 = Some 16777215"
  by (simp add: big_eval float32_big)

lemma big_root: "node_split 0 16777217 big_codes = Some (16777217, 16777215)"
  by (simp add: node_split_def big_root_lmax big_root_l big_root_split big_eval)

lemma big_other_lmax: "find_lmax 16777216 (- 1) 0 16777217 big_codes 2 = Some 33554432"
  by (simp add: big_eval)

lemma big_other_l: "find_l 16777216 (- 1) 0 16777217 big_codes 16777216 0 = 16777216"
  by (simp add: big_eval)

lemma big_other_split: "find_split 16777216 (- 1) 39 16777217 big_codes 16777216 2 0 = Some 0"
  by (simp add: big_eval float32_exact)

lemma big_other: "node_split 16777216 16777217 big_codes = Some (0, 16777215)"
  by (simp add: node_split_def big_eval big_other_lmax big_other_l big_other_split)

text \<open>
  C1. On \<open>2 ^ 24 + 2\<close> primitives the tree is not binary: the range of node 0 has length
  \<open>2 ^ 24 + 1\<close>, which \<^verbatim>\<open>float32\<close> rounds to \<open>2 ^ 24\<close>, the steps of the split search then
  add up to \<open>2 ^ 24 - 1\<close> only, and node 0 takes the internal node \<open>2 ^ 24 - 1\<close> as its
  left child, which is also the left child of node \<open>2 ^ 24\<close>. Both iterations write
  the parent of node \<open>2 ^ 24 - 1\<close>.
\<close>

theorem build_tree_shares_child:
  "(\<exists>d. build_node 0 big_tree = Inr d \<and> m_left_children d ! 0 = 16777215
        \<and> m_right_children d ! 0 = 16777216 \<and> m_parents d ! 16777215 = 0)
   \<and> (\<exists>d. build_node 16777216 big_tree = Inr d \<and> m_left_children d ! 16777216 = 16777215
        \<and> m_right_children d ! 16777216 = 33554433 \<and> m_parents d ! 16777215 = 16777216)"
proof -
  have "\<exists>d. build_node 0 big_tree = Inr d \<and> m_left_children d ! 0 = 16777215
        \<and> m_right_children d ! 0 = 16777216 \<and> m_parents d ! 16777215 = 0"
    by (simp add: build_node_def big_tree_def big_root store_def)
  moreover have "\<exists>d. build_node 16777216 big_tree = Inr d \<and> m_left_children d ! 16777216 = 16777215
        \<and> m_right_children d ! 16777216 = 33554433 \<and> m_parents d ! 16777215 = 16777216"
    by (simp add: build_node_def big_tree_def big_other store_def)
  ultimately show ?thesis by blast
qed

subsection \<open>C7: sort_mcodes\<close>

text \<open>
  C7. For a code array of length \<open>n\<close>, \<^verbatim>\<open>sort_mcodes\<close> returns an index array that is a
  permutation of \<open>[0, n)\<close>, along which the codes are non-decreasing, with equal codes in
  ascending order of their original position; the returned code array holds at \<open>i\<close> the
  original code at \<open>iter[i]\<close>.
\<close>

theorem sort_mcodes_stable:
  assumes "length mcodes = n" and "length iter = n"
  shows "\<exists>codes' iter'. sort_mcodes E mcodes (int n) iter = Inr (codes', iter')
    \<and> length iter' = n \<and> distinct iter' \<and> set iter' = {0..<int n}
    \<and> sorted (map (\<lambda>i. mcodes ! nat i) iter')
    \<and> (\<forall>p q. p < q \<and> q < n \<and> mcodes ! nat (iter' ! p) = mcodes ! nat (iter' ! q)
          \<longrightarrow> iter' ! p < iter' ! q)
    \<and> length codes' = n \<and> (\<forall>i<n. codes' ! i = mcodes ! nat (iter' ! i))"
proof -
  let ?key = "\<lambda>i. mcodes ! nat i"
  let ?it = "sort_key ?key (map int [0..<n])"
  note props = sort_key_counting_props [where key = ?key and n = n]
  have eq: "sort_mcodes E mcodes (int n) iter = Inr (map ?key ?it, ?it)"
    using assms by (rule sort_mcodes_eq)
  show ?thesis
  proof (intro exI conjI)
    show "sort_mcodes E mcodes (int n) iter = Inr (map ?key ?it, ?it)" by (rule eq)
    show "length ?it = n" by (rule props(1))
    show "distinct ?it" by (rule props(2))
    show "set ?it = {0..<int n}" by (rule props(3))
    show "sorted (map ?key ?it)" by (rule props(4))
    show "\<forall>p q. p < q \<and> q < n \<and> ?key (?it ! p) = ?key (?it ! q) \<longrightarrow> ?it ! p < ?it ! q"
      using props(5) by blast
    show "length (map ?key ?it) = n" by simp
    show "\<forall>i<n. map ?key ?it ! i = ?key (?it ! i)" by simp
  qed
qed

theorem sort_mcodes_stable_witness:
  "length [3, 1, 3, 0 :: uint32] = 4 \<and> length [7, 7, 7, 7 :: int32] = 4
   \<and> (\<exists>codes' iter'. sort_mcodes example_env [3, 1, 3, 0] (int 4) [7, 7, 7, 7] = Inr (codes', iter')
    \<and> length iter' = 4 \<and> distinct iter' \<and> set iter' = {0..<int 4}
    \<and> sorted (map (\<lambda>i. [3, 1, 3, 0 :: uint32] ! nat i) iter')
    \<and> (\<forall>p q. p < q \<and> q < 4 \<and> [3, 1, 3, 0 :: uint32] ! nat (iter' ! p) = [3, 1, 3, 0] ! nat (iter' ! q)
          \<longrightarrow> iter' ! p < iter' ! q)
    \<and> length codes' = 4 \<and> (\<forall>i<4. codes' ! i = [3, 1, 3, 0] ! nat (iter' ! i)))"
proof -
  have h1: "length [3, 1, 3, 0 :: uint32] = 4" and h2: "length [7, 7, 7, 7 :: int32] = 4"
    by simp_all
  from sort_mcodes_stable [OF h1 h2, of example_env] h1 h2 show ?thesis
    by blast
qed

subsection \<open>C8: the leafs permutation\<close>

lemma build_radix_tree_leaves:
  assumes ok: "build_radix_tree E (int n) sf c = Inr c'" and len: "n \<le> length (boxes c)"
  shows "\<exists>codes :: uint32 list. length codes = n
    \<and> m_leafs (radix_tree c') = sort_key (\<lambda>i. codes ! nat i) (map int [0..<n])
    \<and> m_leaf_aabbs (radix_tree c') =
         map (\<lambda>p. box_scale E sf (boxes c ! nat (m_leafs (radix_tree c') ! p))) [0..<n]
    \<and> boxes c' = boxes c"
proof -
  let ?pre = "map (\<lambda>i. box_scale E sf (boxes c ! i)) [0..<n]"
  from build_radix_tree_stages [OF ok len] obtain b codes rt rt' st where
    lc: "length codes = n"
    and bt: "build_tree ((allocate E (int n))\<lparr>
          m_mcodes := map (\<lambda>i. codes ! nat i) (sort_key (\<lambda>i. codes ! nat i) (map int [0..<n])),
          m_leafs := sort_key (\<lambda>i. codes ! nat i) (map int [0..<n]),
          m_leaf_aabbs := map (\<lambda>i. ?pre ! nat (sort_key (\<lambda>i. codes ! nat i) (map int [0..<n]) ! i)) [0..<n]\<rparr>) = Inr rt"
    and pr: "propagate_aabbs E rt = Inr (rt', st)"
    and c': "c' = c\<lparr>bounds := b, radix_tree := rt'\<rparr>"
    by blast
  let ?leafs = "sort_key (\<lambda>i. codes ! nat i) (map int [0..<n])"
  from build_tree_frame [OF bt] propagate_aabbs_frame [OF pr]
  have leafs: "m_leafs rt' = ?leafs"
    and aabbs: "m_leaf_aabbs rt' = map (\<lambda>i. ?pre ! nat (?leafs ! i)) [0..<n]"
    by (simp_all add: same_leaves_def)
  have "?pre ! nat (?leafs ! p) = box_scale E sf (boxes c ! nat (?leafs ! p))" if "p < n" for p
  proof -
    have "?leafs ! p \<in> set ?leafs" using that by (intro nth_mem) simp
    then have "nat (?leafs ! p) < n" by auto
    then show ?thesis by simp
  qed
  then have "map (\<lambda>i. ?pre ! nat (?leafs ! i)) [0..<n]
      = map (\<lambda>p. box_scale E sf (boxes c ! nat (?leafs ! p))) [0..<n]"
    by simp
  with lc leafs aabbs c' have "length codes = n
    \<and> m_leafs (radix_tree c') = sort_key (\<lambda>i. codes ! nat i) (map int [0..<n])
    \<and> m_leaf_aabbs (radix_tree c') =
         map (\<lambda>p. box_scale E sf (boxes c ! nat (m_leafs (radix_tree c') ! p))) [0..<n]
    \<and> boxes c' = boxes c"
    by simp
  then show ?thesis by (rule exI)
qed

lemma reduce_total: "n \<le> length aabbs \<Longrightarrow> \<exists>b. reduce E aabbs (int n) = Inr b"
proof (induction n)
  case 0
  show ?case by (simp add: reduce_def)
next
  case (Suc n)
  then obtain b where "reduce E aabbs (int n) = Inr b" by auto
  moreover have "n < length aabbs" using Suc.prems by simp
  ultimately show ?case
    unfolding reduce_def by (simp add: for_all_Suc del: of_nat_Suc)
qed

lemma inv_extents_eq:
  assumes "isNearlyEqual E 0 0"
  shows "inv_extents E es
    = Inr (map (\<lambda>e. if isNearlyEqual E e 0 then 0 else round_float E (1 / e)) es)"
proof (induction es)
  case Nil
  show ?case by simp
next
  case (Cons e es)
  have "e \<noteq> 0" if "\<not> isNearlyEqual E e 0"
    using that assms by auto
  then show ?case
    by (simp add: Cons fdiv_def)
qed

lemma get_mcodes_eq:
  assumes "isNearlyEqual E 0 0" and "n \<le> length aabbs" and "n \<le> length mc"
  shows "get_mcodes E aabbs (int n) bnds mc =
    Inr (map (\<lambda>i. morton32_encode E (normalized_centroid E (aabbs ! i) (getMin bnds)
              (map (\<lambda>e. if isNearlyEqual E e 0 then 0 else round_float E (1 / e))
                 (map2 (\<lambda>hi lo. round_float E (hi - lo)) (getMax bnds) (getMin bnds)))))
           [0..<n] @ drop n mc)"
  unfolding get_mcodes_def Let_def inv_extents_eq [OF assms(1)] bindF_Inr
  by (rule for_all_store) (use assms in simp_all)

lemma build_radix_tree_sorted:
  fixes sf :: real
  assumes n: "0 < n" and len: "n \<le> length (boxes c)" and z: "isNearlyEqual E 0 0"
  defines "pre \<equiv> map (\<lambda>i. box_scale E sf (boxes c ! i)) [0..<n]"
  shows "\<exists>b codes0 :: uint32 list.
      transform_boxes E (boxes c) (m_leaf_aabbs (allocate E (int n))) (int n) sf = Inr pre
    \<and> reduce E pre (int n) = Inr b
    \<and> get_mcodes E pre (int n) b (m_mcodes (allocate E (int n))) = Inr codes0
    \<and> length codes0 = n
    \<and> sort_mcodes E codes0 (int n) (m_leafs (allocate E (int n)))
        = Inr (map (\<lambda>i. codes0 ! nat i) (sort_key (\<lambda>i. codes0 ! nat i) (map int [0..<n])),
               sort_key (\<lambda>i. codes0 ! nat i) (map int [0..<n]))
    \<and> reorder (sort_key (\<lambda>i. codes0 ! nat i) (map int [0..<n])) pre (int n)
          (map (junk_box E) [0..<n])
        = Inr (map (\<lambda>p. pre ! nat (sort_key (\<lambda>i. codes0 ! nat i) (map int [0..<n]) ! p)) [0..<n])
    \<and> build_radix_tree E (int n) sf c =
        bindF (build_tree ((allocate E (int n))\<lparr>
            m_mcodes := map (\<lambda>i. codes0 ! nat i) (sort_key (\<lambda>i. codes0 ! nat i) (map int [0..<n])),
            m_leafs := sort_key (\<lambda>i. codes0 ! nat i) (map int [0..<n]),
            m_leaf_aabbs :=
              map (\<lambda>p. pre ! nat (sort_key (\<lambda>i. codes0 ! nat i) (map int [0..<n]) ! p)) [0..<n]\<rparr>))
          (\<lambda>rt. bindF (propagate_aabbs E rt)
             (\<lambda>(rt, st). Inr (c\<lparr>bounds := b, radix_tree := rt\<rparr>)))"
proof -
  have t: "transform_boxes E (boxes c) (map (junk_box E) [0..<n]) (int n) sf = Inr pre"
    using transform_boxes_eq [of n "boxes c" "map (junk_box E) [0..<n]" E sf] len
    by (simp add: pre_def)
  obtain b where b: "reduce E pre (int n) = Inr b"
    using reduce_total [of n pre E] by (auto simp: pre_def)
  define codes0 where "codes0 = map (\<lambda>i. morton32_encode E (normalized_centroid E (pre ! i) (getMin b)
              (map (\<lambda>e. if isNearlyEqual E e 0 then 0 else round_float E (1 / e))
                 (map2 (\<lambda>hi lo. round_float E (hi - lo)) (getMax b) (getMin b))))) [0..<n]"
  have codes: "get_mcodes E pre (int n) b (map (junk_code E) [0..<n]) = Inr codes0"
    using get_mcodes_eq [OF z, of n pre "map (junk_code E) [0..<n]" b]
    by (simp add: pre_def codes0_def)
  have lc: "length codes0 = n" by (simp add: codes0_def)
  let ?key = "\<lambda>i. codes0 ! nat i"
  let ?leafs = "sort_key ?key (map int [0..<n])"
  have s: "sort_mcodes E codes0 (int n) (map (junk_int E) [0..<n]) = Inr (map ?key ?leafs, ?leafs)"
    by (rule sort_mcodes_eq) (simp_all add: lc)
  have idx: "0 \<le> ?leafs ! i \<and> ?leafs ! i < int (length pre)" if "i < n" for i
  proof -
    have "?leafs ! i \<in> set ?leafs" using that by (intro nth_mem) simp
    then show ?thesis by (auto simp: pre_def)
  qed
  have "reorder ?leafs pre (int n) (map (junk_box E) [0..<n])
      = Inr (map (\<lambda>i. pre ! nat (?leafs ! i)) [0..<n] @ drop n (map (junk_box E) [0..<n]))"
    by (rule reorder_eq) (use idx in simp_all)
  then have r: "reorder ?leafs pre (int n) (map (junk_box E) [0..<n])
      = Inr (map (\<lambda>i. pre ! nat (?leafs ! i)) [0..<n])"
    by simp
  have "build_radix_tree E (int n) sf c =
        bindF (build_tree ((allocate E (int n))\<lparr>m_mcodes := map ?key ?leafs, m_leafs := ?leafs,
            m_leaf_aabbs := map (\<lambda>p. pre ! nat (?leafs ! p)) [0..<n]\<rparr>))
          (\<lambda>rt. bindF (propagate_aabbs E rt)
             (\<lambda>(rt, st). Inr (c\<lparr>bounds := b, radix_tree := rt\<rparr>)))"
    using n by (simp add: build_radix_tree_def Let_def allocate_def t b codes s r)
  moreover have "transform_boxes E (boxes c) (m_leaf_aabbs (allocate E (int n))) (int n) sf = Inr pre"
    "get_mcodes E pre (int n) b (m_mcodes (allocate E (int n))) = Inr codes0"
    "sort_mcodes E codes0 (int n) (m_leafs (allocate E (int n))) = Inr (map ?key ?leafs, ?leafs)"
    using t codes s by (simp_all add: allocate_def)
  ultimately show ?thesis using b lc r by blast
qed

text \<open>
  C8. For every input of \<open>n > 0\<close> boxes the builder reaches \<^verbatim>\<open>build_tree\<close> (\<^verbatim>\<open>isNearlyEqual\<close>
  is taken to find 0 nearly equal to 0): \<^verbatim>\<open>transform_boxes\<close> leaves the scaled input boxes
  in the leaf boxes, this is the array before the sort; \<^verbatim>\<open>sort_mcodes\<close> leaves in \<open>leafs\<close> a
  permutation of \<open>[0, n)\<close>; and after \<^verbatim>\<open>reorder\<close> the leaf box at every position \<open>p\<close> is
  the box that stood at index \<open>leafs[p]\<close> before the sort. What remains of the builder is
  \<^verbatim>\<open>build_tree\<close> and \<^verbatim>\<open>propagate_aabbs\<close> on that tree, and a tree that they return has the
  same \<open>leafs\<close> and the same leaf boxes.
\<close>

theorem leafs_round_trip:
  assumes "0 < n" and "length (boxes c) = n" and "isNearlyEqual E 0 0"
  shows "\<exists>pre b codes0 codes leafs aabbs.
      transform_boxes E (boxes c) (m_leaf_aabbs (allocate E (int n))) (int n) sf = Inr pre
    \<and> reduce E pre (int n) = Inr b
    \<and> get_mcodes E pre (int n) b (m_mcodes (allocate E (int n))) = Inr codes0
    \<and> sort_mcodes E codes0 (int n) (m_leafs (allocate E (int n))) = Inr (codes, leafs)
    \<and> reorder leafs pre (int n) (map (junk_box E) [0..<n]) = Inr aabbs
    \<and> length pre = n \<and> (\<forall>i<n. pre ! i = box_scale E sf (boxes c ! i))
    \<and> length leafs = n \<and> distinct leafs \<and> set leafs = {0..<int n}
    \<and> length aabbs = n \<and> (\<forall>p<n. aabbs ! p = pre ! nat (leafs ! p))
    \<and> build_radix_tree E (int n) sf c =
        bindF (build_tree ((allocate E (int n))\<lparr>m_mcodes := codes, m_leafs := leafs,
                 m_leaf_aabbs := aabbs\<rparr>))
          (\<lambda>rt. bindF (propagate_aabbs E rt)
             (\<lambda>(rt, st). Inr (c\<lparr>bounds := b, radix_tree := rt\<rparr>)))
    \<and> (\<forall>c'. build_radix_tree E (int n) sf c = Inr c' \<longrightarrow>
          m_leafs (radix_tree c') = leafs \<and> m_leaf_aabbs (radix_tree c') = aabbs)"
proof -
  define pre where "pre = map (\<lambda>i. box_scale E sf (boxes c ! i)) [0..<n]"
  have "n \<le> length (boxes c)" using assms(2) by simp
  from build_radix_tree_sorted [OF assms(1) this assms(3), of sf, folded pre_def]
  obtain b and codes0 :: "uint32 list" where
    t: "transform_boxes E (boxes c) (m_leaf_aabbs (allocate E (int n))) (int n) sf = Inr pre"
    and b: "reduce E pre (int n) = Inr b"
    and g: "get_mcodes E pre (int n) b (m_mcodes (allocate E (int n))) = Inr codes0"
    and s: "sort_mcodes E codes0 (int n) (m_leafs (allocate E (int n)))
        = Inr (map (\<lambda>i. codes0 ! nat i) (sort_key (\<lambda>i. codes0 ! nat i) (map int [0..<n])),
               sort_key (\<lambda>i. codes0 ! nat i) (map int [0..<n]))"
    and r: "reorder (sort_key (\<lambda>i. codes0 ! nat i) (map int [0..<n])) pre (int n)
          (map (junk_box E) [0..<n])
        = Inr (map (\<lambda>p. pre ! nat (sort_key (\<lambda>i. codes0 ! nat i) (map int [0..<n]) ! p)) [0..<n])"
    and e: "build_radix_tree E (int n) sf c =
        bindF (build_tree ((allocate E (int n))\<lparr>
            m_mcodes := map (\<lambda>i. codes0 ! nat i) (sort_key (\<lambda>i. codes0 ! nat i) (map int [0..<n])),
            m_leafs := sort_key (\<lambda>i. codes0 ! nat i) (map int [0..<n]),
            m_leaf_aabbs :=
              map (\<lambda>p. pre ! nat (sort_key (\<lambda>i. codes0 ! nat i) (map int [0..<n]) ! p)) [0..<n]\<rparr>))
          (\<lambda>rt. bindF (propagate_aabbs E rt)
             (\<lambda>(rt, st). Inr (c\<lparr>bounds := b, radix_tree := rt\<rparr>)))"
    by blast
  define leafs where "leafs = sort_key (\<lambda>i. codes0 ! nat i) (map int [0..<n])"
  define aabbs where "aabbs = map (\<lambda>p. pre ! nat (leafs ! p)) [0..<n]"
  note props = sort_key_counting_props [where key = "\<lambda>i. codes0 ! nat i" and n = n,
      folded leafs_def]
  have frame: "m_leafs (radix_tree c') = leafs \<and> m_leaf_aabbs (radix_tree c') = aabbs"
    if "build_radix_tree E (int n) sf c = Inr c'" for c'
  proof -
    from that e obtain rt rt' st where
      bt: "build_tree ((allocate E (int n))\<lparr>m_mcodes := map (\<lambda>i. codes0 ! nat i) leafs,
             m_leafs := leafs, m_leaf_aabbs := aabbs\<rparr>) = Inr rt"
      and pr: "propagate_aabbs E rt = Inr (rt', st)"
      and c': "c' = c\<lparr>bounds := b, radix_tree := rt'\<rparr>"
      unfolding leafs_def aabbs_def by (auto simp: bindF_eq_Inr_iff)
    from build_tree_frame [OF bt] propagate_aabbs_frame [OF pr] c' show ?thesis
      by (simp add: same_leaves_def)
  qed
  show ?thesis
  proof (intro exI conjI)
    show "transform_boxes E (boxes c) (m_leaf_aabbs (allocate E (int n))) (int n) sf = Inr pre"
      by (rule t)
    show "reduce E pre (int n) = Inr b" by (rule b)
    show "get_mcodes E pre (int n) b (m_mcodes (allocate E (int n))) = Inr codes0" by (rule g)
    show "sort_mcodes E codes0 (int n) (m_leafs (allocate E (int n)))
        = Inr (map (\<lambda>i. codes0 ! nat i) leafs, leafs)"
      using s by (simp add: leafs_def)
    show "reorder leafs pre (int n) (map (junk_box E) [0..<n]) = Inr aabbs"
      using r by (simp add: leafs_def aabbs_def)
    show "length pre = n" by (simp add: pre_def)
    show "\<forall>i<n. pre ! i = box_scale E sf (boxes c ! i)" by (simp add: pre_def)
    show "length leafs = n" by (rule props(1))
    show "distinct leafs" by (rule props(2))
    show "set leafs = {0..<int n}" by (rule props(3))
    show "length aabbs = n" by (simp add: aabbs_def)
    show "\<forall>p<n. aabbs ! p = pre ! nat (leafs ! p)" by (simp add: aabbs_def)
    show "build_radix_tree E (int n) sf c =
        bindF (build_tree ((allocate E (int n))\<lparr>m_mcodes := map (\<lambda>i. codes0 ! nat i) leafs,
                 m_leafs := leafs, m_leaf_aabbs := aabbs\<rparr>))
          (\<lambda>rt. bindF (propagate_aabbs E rt)
             (\<lambda>(rt, st). Inr (c\<lparr>bounds := b, radix_tree := rt\<rparr>)))"
      using e by (simp add: leafs_def aabbs_def)
    show "\<forall>c'. build_radix_tree E (int n) sf c = Inr c' \<longrightarrow>
          m_leafs (radix_tree c') = leafs \<and> m_leaf_aabbs (radix_tree c') = aabbs"
      using frame by blast
  qed
qed

theorem leafs_round_trip_witness:
  "0 < (3::nat) \<and> length (boxes ex_caller) = 3 \<and> isNearlyEqual example_env 0 0
   \<and> (\<exists>pre b codes0 codes leafs aabbs.
      transform_boxes example_env (boxes ex_caller) (m_leaf_aabbs (allocate example_env (int 3)))
          (int 3) 1 = Inr pre
    \<and> reduce example_env pre (int 3) = Inr b
    \<and> get_mcodes example_env pre (int 3) b (m_mcodes (allocate example_env (int 3))) = Inr codes0
    \<and> sort_mcodes example_env codes0 (int 3) (m_leafs (allocate example_env (int 3)))
        = Inr (codes, leafs)
    \<and> reorder leafs pre (int 3) (map (junk_box example_env) [0..<3]) = Inr aabbs
    \<and> length pre = 3 \<and> (\<forall>i<3. pre ! i = box_scale example_env 1 (boxes ex_caller ! i))
    \<and> length leafs = 3 \<and> distinct leafs \<and> set leafs = {0..<int 3}
    \<and> length aabbs = 3 \<and> (\<forall>p<3. aabbs ! p = pre ! nat (leafs ! p))
    \<and> build_radix_tree example_env (int 3) 1 ex_caller =
        bindF (build_tree ((allocate example_env (int 3))\<lparr>m_mcodes := codes, m_leafs := leafs,
                 m_leaf_aabbs := aabbs\<rparr>))
          (\<lambda>rt. bindF (propagate_aabbs example_env rt)
             (\<lambda>(rt, st). Inr (ex_caller\<lparr>bounds := b, radix_tree := rt\<rparr>)))
    \<and> (\<forall>c'. build_radix_tree example_env (int 3) 1 ex_caller = Inr c' \<longrightarrow>
          m_leafs (radix_tree c') = leafs \<and> m_leaf_aabbs (radix_tree c') = aabbs))"
proof -
  have h1: "0 < (3::nat)" by simp
  have h2: "length (boxes ex_caller) = 3"
    by (simp add: ex_caller_def ex_boxes_def)
  have h3: "isNearlyEqual example_env 0 0"
    by (simp add: example_env_sel)
  from leafs_round_trip [OF h1 h2 h3, of 1] h1 h2 h3 show ?thesis
    by blast
qed

subsection \<open>C10: the input array\<close>

text \<open>
  C10. \<^verbatim>\<open>build_radix_tree\<close> does not modify the caller's array of boxes: the first stage
  writes the scaled copy of every input box into the leaf boxes of the tree, and when
  the builder returns the input array is what it was.
\<close>

theorem input_boxes_unchanged:
  assumes "build_radix_tree E (int n) sf c = Inr c'" and "n \<le> length (boxes c)"
  shows "boxes c' = boxes c
    \<and> transform_boxes E (boxes c) (m_leaf_aabbs (allocate E (int n))) (int n) sf
        = Inr (map (\<lambda>i. box_scale E sf (boxes c ! i)) [0..<n])"
proof -
  from build_radix_tree_leaves [OF assms] have "boxes c' = boxes c" by blast
  moreover have "transform_boxes E (boxes c) (m_leaf_aabbs (allocate E (int n))) (int n) sf
        = Inr (map (\<lambda>i. box_scale E sf (boxes c ! i)) [0..<n])"
    using transform_boxes_eq [of n "boxes c" "m_leaf_aabbs (allocate E (int n))" E sf] assms(2)
    by (simp add: allocate_def)
  ultimately show ?thesis by simp
qed

theorem input_boxes_unchanged_witness:
  "build_radix_tree example_env (int 3) 1 ex_caller = Inr ex_result \<and> 3 \<le> length (boxes ex_caller)
   \<and> boxes ex_result = ex_boxes \<and> boxes ex_caller = ex_boxes"
proof -
  have h1: "build_radix_tree example_env (int 3) 1 ex_caller = Inr ex_result"
    using ex_pipeline by simp
  have h2: "3 \<le> length (boxes ex_caller)"
    by (simp add: ex_caller_def ex_boxes_def)
  have "boxes ex_caller = ex_boxes" by (simp add: ex_caller_def)
  with input_boxes_unchanged [OF h1 h2] h1 h2 show ?thesis by simp
qed

subsection \<open>C9: a bounding box without extent\<close>

lemma for_each_fault:
  assumes "\<And>i s e. body i s = Inl e \<Longrightarrow> P e"
  shows "for_each js body s = Inl e \<Longrightarrow> P e"
proof (induction js arbitrary: s)
  case Nil
  then show ?case by simp
next
  case (Cons j js)
  show ?case
  proof (cases "body j s")
    case (Inl e')
    with Cons.prems have "e' = e" by simp
    with Inl assms show ?thesis by blast
  next
    case (Inr s1)
    with Cons.prems have "for_each js body s1 = Inl e" by simp
    then show ?thesis by (rule Cons.IH)
  qed
qed

lemma int_coord_zero: "round_float E 0 = 0 \<Longrightarrow> int_coord E 0 = 0"
  by (simp add: int_coord_def)

text \<open>
  C9. Provided \<^verbatim>\<open>isNearlyEqual\<close> finds 0 nearly equal to 0 and 0 rounds to 0:
  \<^verbatim>\<open>get_mcodes\<close> never divides by zero, whatever its input; in every dimension in which
  the bounds have no extent the inverse extent is 0; and when the arrays hold \<open>n\<close>
  entries, \<^verbatim>\<open>get_mcodes\<close> returns, the code it stores for box \<open>i\<close> is the Morton code of
  the integer coordinates of the normalised centroid of that box, and in every dimension
  without extent the normalised centroid is 0 and the integer coordinate is 0.
\<close>

theorem get_mcodes_zero_extent:
  assumes "isNearlyEqual E 0 0" and "round_float E 0 = 0"
  shows "get_mcodes E aabbs sz bnds mc \<noteq> Inl DivisionByZero
    \<and> (\<exists>inv_extent.
          inv_extents E (map2 (\<lambda>hi lo. round_float E (hi - lo)) (getMax bnds) (getMin bnds))
            = Inr inv_extent
        \<and> (\<forall>k. k < length (getMax bnds) \<and> k < length (getMin bnds)
               \<and> getMax bnds ! k = getMin bnds ! k \<longrightarrow> inv_extent ! k = 0)
        \<and> (sz = int n \<and> n \<le> length aabbs \<and> n \<le> length mc \<longrightarrow>
            (\<exists>codes. get_mcodes E aabbs sz bnds mc = Inr codes \<and> length codes = length mc
               \<and> (\<forall>i<n. codes ! i = convertPointToMorton E
                      (map (int_coord E) (normalized_centroid E (aabbs ! i) (getMin bnds) inv_extent))
                    \<and> (\<forall>k. k < length (getMax bnds) \<and> k < length (getMin bnds)
                           \<and> getMax bnds ! k = getMin bnds ! k
                           \<and> k < length (getMin (aabbs ! i)) \<and> k < length (getMax (aabbs ! i))
                         \<longrightarrow> normalized_centroid E (aabbs ! i) (getMin bnds) inv_extent ! k = 0
                           \<and> map (int_coord E)
                               (normalized_centroid E (aabbs ! i) (getMin bnds) inv_extent) ! k = 0)))))"
proof -
  let ?ext = "map2 (\<lambda>hi lo. round_float E (hi - lo)) (getMax bnds) (getMin bnds)"
  let ?inv = "map (\<lambda>e. if isNearlyEqual E e 0 then 0 else round_float E (1 / e)) ?ext"
  let ?nc = "\<lambda>aabb. normalized_centroid E aabb (getMin bnds) ?inv"
  have inv: "inv_extents E ?ext = Inr ?inv"
    using assms(1) by (rule inv_extents_eq)
  have nodiv: "get_mcodes E aabbs sz bnds mc \<noteq> Inl DivisionByZero"
  proof
    assume "get_mcodes E aabbs sz bnds mc = Inl DivisionByZero"
    then have "for_each (map int [0..<nat sz])
       (\<lambda>i mcodes. bindF (load aabbs i)
          (\<lambda>aabb. store mcodes i (morton32_encode E (?nc aabb)))) mc
       = Inl DivisionByZero"
      by (simp add: get_mcodes_def Let_def inv for_all_def)
    then have "DivisionByZero = OutOfBounds"
      by (rule for_each_fault [rotated])
        (auto simp: bindF_def load_def store_def split: sum.splits if_splits)
    then show False by simp
  qed
  have zero: "?inv ! k = 0"
    if "k < length (getMax bnds)" "k < length (getMin bnds)" "getMax bnds ! k = getMin bnds ! k"
    for k
  proof -
    have "?ext ! k = 0" using that assms(2) by simp
    then show ?thesis using that assms(1) by simp
  qed
  have coord: "?nc aabb ! k = 0 \<and> map (int_coord E) (?nc aabb) ! k = 0"
    if k: "k < length (getMax bnds)" "k < length (getMin bnds)"
      "getMax bnds ! k = getMin bnds ! k"
      and a: "k < length (getMin aabb)" "k < length (getMax aabb)"
    for k aabb
  proof -
    have len: "k < length (?nc aabb)"
      using k a by (simp add: normalized_centroid_def getCentroid_def)
    have "?nc aabb ! k = 0"
      using k a zero [OF k] assms(2) by (simp add: normalized_centroid_def getCentroid_def)
    with len show ?thesis by (simp add: int_coord_zero [OF assms(2)])
  qed
  have stored: "\<exists>codes. get_mcodes E aabbs sz bnds mc = Inr codes \<and> length codes = length mc
      \<and> (\<forall>i<n. codes ! i = convertPointToMorton E (map (int_coord E) (?nc (aabbs ! i)))
            \<and> (\<forall>k. k < length (getMax bnds) \<and> k < length (getMin bnds)
                   \<and> getMax bnds ! k = getMin bnds ! k
                   \<and> k < length (getMin (aabbs ! i)) \<and> k < length (getMax (aabbs ! i))
                 \<longrightarrow> ?nc (aabbs ! i) ! k = 0 \<and> map (int_coord E) (?nc (aabbs ! i)) ! k = 0))"
    if "sz = int n" "n \<le> length aabbs" "n \<le> length mc"
  proof -
    let ?codes = "map (\<lambda>i. morton32_encode E (?nc (aabbs ! i))) [0..<n] @ drop n mc"
    have "get_mcodes E aabbs sz bnds mc = Inr ?codes"
      unfolding that(1) using assms(1) that(2,3) by (rule get_mcodes_eq)
    moreover have "length ?codes = length mc" using that(3) by simp
    moreover have "?codes ! i = convertPointToMorton E (map (int_coord E) (?nc (aabbs ! i)))"
      if "i < n" for i
      using that by (simp add: nth_append morton32_encode_def)
    ultimately show ?thesis using coord by blast
  qed
  show ?thesis
  proof (intro conjI exI)
    show "get_mcodes E aabbs sz bnds mc \<noteq> Inl DivisionByZero" by (rule nodiv)
    show "inv_extents E ?ext = Inr ?inv" by (rule inv)
    show "\<forall>k. k < length (getMax bnds) \<and> k < length (getMin bnds)
               \<and> getMax bnds ! k = getMin bnds ! k \<longrightarrow> ?inv ! k = 0"
      using zero by blast
    show "sz = int n \<and> n \<le> length aabbs \<and> n \<le> length mc \<longrightarrow>
        (\<exists>codes. get_mcodes E aabbs sz bnds mc = Inr codes \<and> length codes = length mc
          \<and> (\<forall>i<n. codes ! i = convertPointToMorton E (map (int_coord E) (?nc (aabbs ! i)))
            \<and> (\<forall>k. k < length (getMax bnds) \<and> k < length (getMin bnds)
                   \<and> getMax bnds ! k = getMin bnds ! k
                   \<and> k < length (getMin (aabbs ! i)) \<and> k < length (getMax (aabbs ! i))
                 \<longrightarrow> ?nc (aabbs ! i) ! k = 0 \<and> map (int_coord E) (?nc (aabbs ! i)) ! k = 0)))"
      using stored by blast
  qed
qed

theorem get_mcodes_zero_extent_witness:
  "isNearlyEqual example_env 0 0 \<and> round_float example_env 0 = 0
   \<and> get_mcodes example_env [\<lparr>getMin = [1, 0], getMax = [3, 0]\<rparr>] (int 1)
        \<lparr>getMin = [0, 0], getMax = [4, 0]\<rparr> [7] \<noteq> Inl DivisionByZero
   \<and> (\<exists>inv_extent codes.
        inv_extents example_env [4, 0] = Inr inv_extent \<and> inv_extent ! 1 = 0
        \<and> get_mcodes example_env [\<lparr>getMin = [1, 0], getMax = [3, 0]\<rparr>] (int 1)
             \<lparr>getMin = [0, 0], getMax = [4, 0]\<rparr> [7] = Inr codes
        \<and> codes ! 0 = convertPointToMorton example_env (map (int_coord example_env)
             (normalized_centroid example_env \<lparr>getMin = [1, 0], getMax = [3, 0]\<rparr> [0, 0] inv_extent))
        \<and> map (int_coord example_env)
             (normalized_centroid example_env \<lparr>getMin = [1, 0], getMax = [3, 0]\<rparr> [0, 0] inv_extent)
            ! 1 = 0)"
proof -
  let ?a = "\<lparr>getMin = [1, 0 :: real], getMax = [3, 0 :: real]\<rparr>"
  have h: "isNearlyEqual example_env 0 0" and h': "round_float example_env 0 = 0"
    by (simp_all add: example_env_sel)
  have e: "map2 (\<lambda>hi lo. round_float example_env (hi - lo)) [4, 0] [0, 0] = [4, 0]"
    by (simp add: example_env_sel)
  from get_mcodes_zero_extent [OF h h', of "[?a]" "int 1"
      "\<lparr>getMin = [0, 0], getMax = [4, 0]\<rparr>" "[7]" 1]
  obtain inv_extent where
    1: "get_mcodes example_env [?a] (int 1) \<lparr>getMin = [0, 0], getMax = [4, 0]\<rparr> [7]
          \<noteq> Inl DivisionByZero"
    and 2: "inv_extents example_env [4, 0] = Inr inv_extent"
    and 3: "\<forall>k. k < length [4, 0 :: real] \<and> k < length [0, 0 :: real]
               \<and> [4, 0 :: real] ! k = [0, 0] ! k \<longrightarrow> inv_extent ! k = 0"
    and 4: "int 1 = int 1 \<and> 1 \<le> length [?a] \<and> 1 \<le> length [7 :: uint32] \<longrightarrow>
        (\<exists>codes. get_mcodes example_env [?a] (int 1) \<lparr>getMin = [0, 0], getMax = [4, 0]\<rparr> [7]
             = Inr codes \<and> length codes = length [7 :: uint32]
          \<and> (\<forall>i<1. codes ! i = convertPointToMorton example_env (map (int_coord example_env)
                     (normalized_centroid example_env ([?a] ! i) [0, 0] inv_extent))
            \<and> (\<forall>k. k < length [4, 0 :: real] \<and> k < length [0, 0 :: real]
                   \<and> [4, 0 :: real] ! k = [0, 0] ! k
                   \<and> k < length (getMin ([?a] ! i)) \<and> k < length (getMax ([?a] ! i))
                 \<longrightarrow> normalized_centroid example_env ([?a] ! i) [0, 0] inv_extent ! k = 0
                   \<and> map (int_coord example_env)
                       (normalized_centroid example_env ([?a] ! i) [0, 0] inv_extent) ! k = 0)))"
    unfolding BoundingBox.simps e by blast
  have p: "1 < length [4, 0 :: real] \<and> 1 < length [0, 0 :: real]
      \<and> [4, 0 :: real] ! 1 = [0, 0] ! 1"
    by simp
  from 3 p have a: "inv_extent ! 1 = 0" by blast
  have "int 1 = int 1 \<and> 1 \<le> length [?a] \<and> 1 \<le> length [7 :: uint32]" by simp
  with 4 obtain codes where
    5: "get_mcodes example_env [?a] (int 1) \<lparr>getMin = [0, 0], getMax = [4, 0]\<rparr> [7] = Inr codes"
    and 6: "\<forall>i<1. codes ! i = convertPointToMorton example_env (map (int_coord example_env)
                     (normalized_centroid example_env ([?a] ! i) [0, 0] inv_extent))
            \<and> (\<forall>k. k < length [4, 0 :: real] \<and> k < length [0, 0 :: real]
                   \<and> [4, 0 :: real] ! k = [0, 0] ! k
                   \<and> k < length (getMin ([?a] ! i)) \<and> k < length (getMax ([?a] ! i))
                 \<longrightarrow> normalized_centroid example_env ([?a] ! i) [0, 0] inv_extent ! k = 0
                   \<and> map (int_coord example_env)
                       (normalized_centroid example_env ([?a] ! i) [0, 0] inv_extent) ! k = 0)"
    by blast
  from 6 have 7: "codes ! 0 = convertPointToMorton example_env (map (int_coord example_env)
                     (normalized_centroid example_env ([?a] ! 0) [0, 0] inv_extent))
            \<and> (\<forall>k. k < length [4, 0 :: real] \<and> k < length [0, 0 :: real]
                   \<and> [4, 0 :: real] ! k = [0, 0] ! k
                   \<and> k < length (getMin ([?a] ! 0)) \<and> k < length (getMax ([?a] ! 0))
                 \<longrightarrow> normalized_centroid example_env ([?a] ! 0) [0, 0] inv_extent ! k = 0
                   \<and> map (int_coord example_env)
                       (normalized_centroid example_env ([?a] ! 0) [0, 0] inv_extent) ! k = 0)"
    by simp
  have q: "1 < length [4, 0 :: real] \<and> 1 < length [0, 0 :: real]
      \<and> [4, 0 :: real] ! 1 = [0, 0] ! 1
      \<and> 1 < length (getMin ([?a] ! 0)) \<and> 1 < length (getMax ([?a] ! 0))"
    by simp
  from 7 q have 8: "map (int_coord example_env)
       (normalized_centroid example_env ([?a] ! 0) [0, 0] inv_extent) ! 1 = 0"
    by blast
  from 7 have 9: "codes ! 0 = convertPointToMorton example_env (map (int_coord example_env)
                     (normalized_centroid example_env ?a [0, 0] inv_extent))"
    by simp
  from 8 have 10: "map (int_coord example_env)
       (normalized_centroid example_env ?a [0, 0] inv_extent) ! 1 = 0"
    by simp
  from h h' 1 2 a 5 9 10 show ?thesis by blast
qed

subsection \<open>C2: propagate_aabbs\<close>









lemma root_plug_Nil [simp]: "root (plug u []) = root u"
  by simp



lemma G_inner_update:
  "k \<notin> inner_ids u \<Longrightarrow>
   G data D (st\<lparr>inner_aabbs := (inner_aabbs st)[k := b], stores := z\<rparr>) u = G data D st u"
  by (induction u) auto







lemma FR_inner_update:
  "k \<notin> ctx_inner c \<Longrightarrow>
   FR data D (st\<lparr>inner_aabbs := (inner_aabbs st)[k := b], stores := z\<rparr>) c = FR data D st c"
  by (induction c rule: ctx_inner.induct) (auto simp: G_inner_update)



































subsection \<open>C6: a single primitive\<close>

text \<open>
  C6. For one primitive \<^verbatim>\<open>build_tree\<close> runs no iteration, so nothing writes the parent of
  the only leaf, and \<^verbatim>\<open>propagate_aabbs\<close> starts its walk from the uninitialised entry
  \<open>parent_ptr[0]\<close>. With zero-filled memory the walk enters node 0 and increments
  \<open>counters[0]\<close> in an array without entries.
\<close>

theorem build_radix_tree_single_faults:
  "build_radix_tree example_env 1 1
     \<lparr>boxes = [\<lparr>getMin = [0, 0], getMax = [2, 2]\<rparr>], bounds = \<lparr>getMin = [], getMax = []\<rparr>,
      radix_tree = allocate example_env 0\<rparr> = Inl OutOfBounds"
  by (simp add: list_eval build_radix_tree_def transform_boxes_def reduce_def get_mcodes_def
      sort_mcodes_def array_counting_def stable_sort_def reorder_def build_tree_def
      propagate_aabbs_def leaf_walk_def atomic_increment_def walk.simps
      for_all_def allocate_def example_env_sel fdiv_def Let_def
      load_def store_def morton32_encode_def normalized_centroid_def getCentroid_def
      scale_about_centre_def addBox_def invalid_box_def)

end
